theory Spec2Isabelle
  imports Complex_Main
begin

section \<open>JavaScript values used by the analytics code\<close>

text \<open>
  JavaScript numbers are IEEE 754 doubles. A double is represented by the real number it
  denotes, and the value NaN is not an inhabitant of the model (the controller builds
  \<open>minutesSpent\<close> with \<open>parseFloat\<close> from a validated decimal column). An arithmetic
  operation of the source is the exact operation followed by the rounding \<open>fl\<close> to the
  nearest double, ties to the even significand. The rounding is defined for the normal
  range of doubles, magnitudes from \<open>2^-1022\<close> up to \<open>2^1024\<close>, and for zero; minutes, their
  sums and products and the scores lie there.
\<close>

text \<open>The integer logarithm to base 2 of a positive natural number.\<close>

fun ilog2 :: "nat \<Rightarrow> nat" where
  "ilog2 n = (if n < 2 then 0 else Suc (ilog2 (n div 2)))"

declare ilog2.simps [simp del]

text \<open>The exponent \<open>e\<close> of a positive real \<open>a\<close>: \<open>2^e \<le> a < 2^(e + 1)\<close>.\<close>

definition binaryExponent :: "real \<Rightarrow> int" where
  "binaryExponent a =
     (if 1 \<le> a then int (ilog2 (nat \<lfloor>a\<rfloor>))
      else - int (Suc (ilog2 (nat (\<lceil>1 / a\<rceil> - 1)))))"

definition roundTiesToEven :: "real \<Rightarrow> int" where
  "roundTiesToEven a =
     (let n = \<lfloor>a\<rfloor>; r = a - of_int n
      in if r < 1 / 2 then n else if r > 1 / 2 then n + 1 else if even n then n else n + 1)"

text \<open>
  Rounding to 53 significant bits: the significand of \<open>x\<close> in units of \<open>2^(e - 52)\<close> is
  rounded to an integer.
\<close>

definition fl :: "real \<Rightarrow> real" where
  "fl x =
     (if x = 0 then 0
      else (let a = \<bar>x\<bar>; u = 2 powi (binaryExponent a - 52)
            in sgn x * (u * of_int (roundTiesToEven (a / u)))))"

text \<open>
  The operations \<open>+\<close>, \<open>-\<close>, \<open>*\<close> and \<open>/\<close> on doubles. A decimal literal of the source
  denotes the double nearest to it and is written \<open>fl 1.1\<close>; integer literals and \<open>0.5\<close> are
  doubles themselves. Scores, points and counts only ever hold integers of small magnitude,
  on which the operations on doubles are exact; they are updated with the exact \<open>+\<close> and
  \<open>-\<close>.
\<close>

definition fadd :: "real \<Rightarrow> real \<Rightarrow> real" where
  "fadd x y = fl (x + y)"

definition fsub :: "real \<Rightarrow> real \<Rightarrow> real" where
  "fsub x y = fl (x - y)"

definition fmul :: "real \<Rightarrow> real \<Rightarrow> real" where
  "fmul x y = fl (x * y)"

definition fdiv :: "real \<Rightarrow> real \<Rightarrow> real" where
  "fdiv x y = fl (x / y)"

text \<open>
  \<open>Math.round\<close> returns the nearest integral number and resolves a tie towards plus
  infinity.
\<close>

definition Math_round :: "real \<Rightarrow> real" where
  "Math_round x = of_int \<lfloor>x + 1 / 2\<rfloor>"

text \<open>
  A \<open>Date\<close> object holds a time value in milliseconds since the epoch, or is invalid.
  \<open>date.toISOString()\<close> raises a RangeError on an invalid date; on a valid one the part
  before the \<open>T\<close> is the UTC calendar day, which is represented here by its day number
  (the textual form is in one-to-one correspondence with it).
\<close>

datatype js_date = Date int | InvalidDate

datatype js_error = RangeError

definition msPerDay :: int where
  "msPerDay = 1000 * 60 * 60 * 24"

fun toISODate :: "js_date \<Rightarrow> js_error + int" where
  "toISODate (Date t) = Inr (t div msPerDay)"
| "toISODate InvalidDate = Inl RangeError"

text \<open>
  A \<open>Map\<close> iterates in insertion order, and \<open>set\<close> on a present key keeps the key's
  position: an association list with update in place.
\<close>

fun Map_get :: "('k \<times> 'v) list \<Rightarrow> 'k \<Rightarrow> 'v option" where
  "Map_get [] k = None"
| "Map_get ((k', v) # m) k = (if k' = k then Some v else Map_get m k)"

fun Map_set :: "('k \<times> 'v) list \<Rightarrow> 'k \<Rightarrow> 'v \<Rightarrow> ('k \<times> 'v) list" where
  "Map_set [] k v = [(k, v)]"
| "Map_set ((k', v') # m) k v = (if k' = k then (k, v) # m else (k', v') # Map_set m k v)"

text \<open>\<open>xs.slice(a, b)\<close> for \<open>0 \<le> a \<le> b\<close>, and \<open>xs.slice(a)\<close>.\<close>

definition slice :: "'a list \<Rightarrow> nat \<Rightarrow> nat \<Rightarrow> 'a list" where
  "slice xs a b = take (b - a) (drop a xs)"

definition slice_from :: "'a list \<Rightarrow> nat \<Rightarrow> 'a list" where
  "slice_from xs a = drop a xs"

text \<open>\<open>xs.reduce((a, b) => a + b, 0)\<close>.\<close>

definition reduce_sum :: "real list \<Rightarrow> real" where
  "reduce_sum xs = fold (\<lambda>b a. fadd a b) xs 0"


section \<open>Data model\<close>

text \<open>
  The plain objects handed to the analytics engine carry \<open>appName\<close>, \<open>minutesSpent\<close> and
  \<open>date\<close>. The backend passes \<open>Date\<close> objects (\<open>js_date usage_log\<close>); the frontend
  entries carry a date string, represented by the time value \<open>new Date(e.date)\<close> parses it
  to (\<open>int usage_entry\<close>), together with the optional fields \<open>createdAt\<close> (a time value),
  \<open>intention\<close> and the tri-state \<open>foundIt\<close>.
\<close>

record 'd usage_log =
  appName :: string
  minutesSpent :: real
  date :: 'd

record 'd usage_entry = "'d usage_log" +
  createdAt :: "int option"
  intention :: "string option"
  foundIt :: "bool option"

record app_usage =
  name :: string
  minutes :: real

record weekly_stats =
  totalMinutes :: real
  averageDailyMinutes :: real
  daysActive :: nat
  trend :: string
  apps :: "app_usage list"

record risk_score =
  score :: real
  category :: string
  level :: string


section \<open>Analytics engine: weekly statistics\<close>

text \<open>
  The \<open>forEach\<close> that groups the logs by date: each step reads the day key (and may
  raise), then adds the minutes to the entry of that day.
\<close>

fun groupByDate ::
  "(int \<times> real) list \<Rightarrow> js_date usage_log list \<Rightarrow> js_error + (int \<times> real) list" where
  "groupByDate dateMap [] = Inr dateMap"
| "groupByDate dateMap (lg # logs) =
     (case toISODate (date lg) of
        Inl e \<Rightarrow> Inl e
      | Inr dateKey \<Rightarrow>
          (let existing = (case Map_get dateMap dateKey of None \<Rightarrow> 0 | Some v \<Rightarrow> v)
           in groupByDate (Map_set dateMap dateKey (fadd existing (minutesSpent lg))) logs))"

fun groupByApp ::
  "(string \<times> real) list \<Rightarrow> ('d, 'z) usage_log_scheme list \<Rightarrow> (string \<times> real) list" where
  "groupByApp appMap [] = appMap"
| "groupByApp appMap (lg # logs) =
     (let existing = (case Map_get appMap (appName lg) of None \<Rightarrow> 0 | Some v \<Rightarrow> v)
      in groupByApp (Map_set appMap (appName lg) (fadd existing (minutesSpent lg))) logs)"

text \<open>
  \<open>Array.from(appMap.entries()).map(...).sort((a, b) => b.minutes - a.minutes)\<close>: a stable
  sort, descending by minutes.
\<close>

definition sortedApps :: "(string \<times> real) list \<Rightarrow> app_usage list" where
  "sortedApps appMap =
     sort_key (\<lambda>a. - minutes a) (map (\<lambda>(n, m). \<lparr>name = n, minutes = m\<rparr>) appMap)"

definition computeTrend :: "real list \<Rightarrow> string" where
  "computeTrend dailyTotals =
     (if length dailyTotals \<ge> 4 then
        (let midpoint = length dailyTotals div 2;
             firstHalf = fdiv (reduce_sum (slice dailyTotals 0 midpoint)) (real midpoint);
             secondHalf = fdiv (reduce_sum (slice_from dailyTotals midpoint))
                            (real (length dailyTotals - midpoint))
         in if secondHalf > fmul firstHalf (fl 1.1) then ''increasing''
            else if secondHalf < fmul firstHalf (fl 0.9) then ''decreasing''
            else ''stable'')
      else ''stable'')"

definition calculateWeeklyStats ::
  "js_date usage_log list option \<Rightarrow> js_error + weekly_stats" where
  "calculateWeeklyStats logs =
     (case logs of
        None \<Rightarrow> Inr \<lparr>totalMinutes = 0, averageDailyMinutes = 0, daysActive = 0,
                     trend = ''stable'', apps = []\<rparr>
      | Some [] \<Rightarrow> Inr \<lparr>totalMinutes = 0, averageDailyMinutes = 0, daysActive = 0,
                        trend = ''stable'', apps = []\<rparr>
      | Some ls \<Rightarrow>
          (case groupByDate [] ls of
             Inl e \<Rightarrow> Inl e
           | Inr dateMap \<Rightarrow>
               (let dailyTotals = map snd dateMap;
                    total = reduce_sum dailyTotals;
                    averageDaily = fdiv total (real (max 1 (length dateMap)));
                    appMap = groupByApp [] ls
                in Inr \<lparr>totalMinutes = fdiv (Math_round (fmul total 100)) 100,
                        averageDailyMinutes = fdiv (Math_round (fmul averageDaily 100)) 100,
                        daysActive = length dateMap,
                        trend = computeTrend dailyTotals,
                        apps = sortedApps appMap\<rparr>)))"


section \<open>Analytics engine: risk score\<close>

text \<open>Factor 1: average daily usage (40 points).\<close>

definition avgDailyPoints :: "real \<Rightarrow> real" where
  "avgDailyPoints avgDaily =
     (if avgDaily \<ge> 360 then 40
      else if avgDaily \<ge> 240 then fadd 30 (fmul (fdiv (fsub avgDaily 240) 120) 5)
      else if avgDaily \<ge> 120 then fadd 20 (fmul (fdiv (fsub avgDaily 120) 120) 10)
      else if avgDaily \<ge> 60 then fadd 10 (fmul (fdiv (fsub avgDaily 60) 60) 10)
      else fmul (fdiv avgDaily 60) 10)"

text \<open>Factor 2: peak usage day (20 points); \<open>Math.max(...values, 0)\<close>.\<close>

definition Math_max0 :: "real list \<Rightarrow> real" where
  "Math_max0 xs = fold max xs 0"

definition peakPoints :: "real \<Rightarrow> real" where
  "peakPoints peakMinutes =
     (if peakMinutes \<ge> 360 then 20
      else if peakMinutes \<ge> 240 then fadd 15 (fmul (fdiv (fsub peakMinutes 240) 120) 5)
      else if peakMinutes \<ge> 120 then fadd 10 (fmul (fdiv (fsub peakMinutes 120) 120) 5)
      else fmul (fdiv peakMinutes 120) 5)"

text \<open>Factor 4: trend (20 points).\<close>

definition trendPoints :: "string \<Rightarrow> real" where
  "trendPoints t =
     (if t = ''increasing'' then 20 else if t = ''stable'' then 10 else 5)"

definition categorize :: "real \<Rightarrow> risk_score" where
  "categorize s =
     (if s \<ge> 70 then \<lparr>score = s, category = ''High'', level = ''high''\<rparr>
      else if s \<ge> 40 then \<lparr>score = s, category = ''Moderate'', level = ''moderate''\<rparr>
      else \<lparr>score = s, category = ''Low'', level = ''low''\<rparr>)"

definition calculateRiskScore ::
  "js_date usage_log list option \<Rightarrow> js_date usage_log list option \<Rightarrow> js_error + risk_score"
  where
  "calculateRiskScore weeklyLogs monthlyLogs =
     (case weeklyLogs of
        None \<Rightarrow> Inr \<lparr>score = 0, category = ''Low'', level = ''low''\<rparr>
      | Some [] \<Rightarrow> Inr \<lparr>score = 0, category = ''Low'', level = ''low''\<rparr>
      | Some wl \<Rightarrow>
          (case calculateWeeklyStats weeklyLogs of
             Inl e \<Rightarrow> Inl e
           | Inr weeklyStats \<Rightarrow>
               (let score1 = fadd 0 (avgDailyPoints (averageDailyMinutes weeklyStats))
                in case groupByDate [] wl of
                     Inl e \<Rightarrow> Inl e
                   | Inr dateMap \<Rightarrow>
                       (let peakMinutes = Math_max0 (map snd dateMap);
                            score2 = fadd score1 (peakPoints peakMinutes);
                            score3 = fadd score2 (fmul (fdiv (real (daysActive weeklyStats)) 7) 20);
                            score4 = fadd score3 (trendPoints (trend weeklyStats))
                        in Inr (categorize (max 0 (min 100 (Math_round score4))))))))"


section \<open>Digital honesty score\<close>

text \<open>
  \<open>parseFloat(entry.minutesSpent) || 0\<close>: on a number, \<open>parseFloat\<close> returns it, and
  \<open>|| 0\<close> replaces the falsy number zero by zero.
\<close>

definition parseMinutes :: "('d, 'z) usage_log_scheme \<Rightarrow> real" where
  "parseMinutes e = (if minutesSpent e \<noteq> 0 then minutesSpent e else 0)"

text \<open>\<open>Math.floor((currDate - prevDate) / (1000 * 60 * 60 * 24))\<close> on time values.\<close>

definition daysDiff :: "int \<Rightarrow> int \<Rightarrow> int" where
  "daysDiff prevDate currDate = \<lfloor>real_of_int (currDate - prevDate) / real_of_int msPerDay\<rfloor>"

definition maxGapDays :: int where
  "maxGapDays = 7"

definition maxRealisticMinutes :: real where
  "maxRealisticMinutes = 960"

text \<open>
  1. The loop over consecutive dates, \<open>for (let i = 1; i < n; i++)\<close>; the running
  \<open>score\<close> of the source is the argument \<open>sc\<close>.
\<close>

function gapLoop :: "int usage_entry list \<Rightarrow> nat \<Rightarrow> real \<Rightarrow> real" where
  "gapLoop sortedEntries i sc =
     (if i < length sortedEntries then
        (let prevDate = date (sortedEntries ! (i - 1));
             currDate = date (sortedEntries ! i);
             d = daysDiff prevDate currDate
         in gapLoop sortedEntries (i + 1)
              (if d > maxGapDays
               then sc - real_of_int (min 30 ((d - maxGapDays) * 5))
               else sc))
      else sc)"
  by pat_completeness auto
termination
  by (relation "measure (\<lambda>(s, i, sc). length s - i)") auto

declare gapLoop.simps [simp del]

text \<open>2. The loop over all entries, \<open>for (const entry of sortedEntries)\<close>.\<close>

fun unrealisticLoop :: "int usage_entry list \<Rightarrow> real \<Rightarrow> real" where
  "unrealisticLoop [] sc = sc"
| "unrealisticLoop (entry # rest) sc =
     unrealisticLoop rest
       (if parseMinutes entry > maxRealisticMinutes then sc - 10 else sc)"

text \<open>3. The spike loops: against the mean of the last three entries, or the predecessor.\<close>

function spikeLoopRecent :: "int usage_entry list \<Rightarrow> nat \<Rightarrow> real \<Rightarrow> real" where
  "spikeLoopRecent sortedEntries i sc =
     (if i < length sortedEntries then
        (let recentEntries = slice sortedEntries (i - 3) i;
             recentAvg = fdiv (fold (\<lambda>e sum. fadd sum (parseMinutes e)) recentEntries 0)
                           (real (length recentEntries));
             currentMinutes = parseMinutes (sortedEntries ! i)
         in spikeLoopRecent sortedEntries (i + 1)
              (if recentAvg > 0 \<and> currentMinutes > fmul recentAvg 3 then sc - 5 else sc))
      else sc)"
  by pat_completeness auto
termination
  by (relation "measure (\<lambda>(s, i, sc). length s - i)") auto

declare spikeLoopRecent.simps [simp del]

function spikeLoopPrev :: "int usage_entry list \<Rightarrow> nat \<Rightarrow> real \<Rightarrow> real" where
  "spikeLoopPrev sortedEntries i sc =
     (if i < length sortedEntries then
        (let prevMinutes = parseMinutes (sortedEntries ! (i - 1));
             currentMinutes = parseMinutes (sortedEntries ! i)
         in spikeLoopPrev sortedEntries (i + 1)
              (if prevMinutes > 0 \<and> currentMinutes > fmul prevMinutes 5 then sc - 5 else sc))
      else sc)"
  by pat_completeness auto
termination
  by (relation "measure (\<lambda>(s, i, sc). length s - i)") auto

declare spikeLoopPrev.simps [simp del]

text \<open>The choice between the two spike loops by the number of entries.\<close>

definition spikePhase :: "int usage_entry list \<Rightarrow> real \<Rightarrow> real" where
  "spikePhase sortedEntries sc =
     (if length sortedEntries \<ge> 4 then spikeLoopRecent sortedEntries 3 sc
      else if length sortedEntries \<ge> 2 then spikeLoopPrev sortedEntries 1 sc
      else sc)"

text \<open>
  The score before the final clamp. The sort is the stable sort of the copied array by
  time value.
\<close>

definition honestyPenalised :: "int usage_entry list \<Rightarrow> real" where
  "honestyPenalised es =
     (let sortedEntries = sort_key date es;
          score0 = 100;
          score1 = gapLoop sortedEntries 1 score0;
          score2 = unrealisticLoop sortedEntries score1
      in spikePhase sortedEntries score2)"

definition calculateDigitalHonestyScore :: "int usage_entry list option \<Rightarrow> real" where
  "calculateDigitalHonestyScore entries =
     (case entries of
        None \<Rightarrow> 100
      | Some es \<Rightarrow>
          if length es = 0 then 100
          else if length es = 1 then 100
          else max 0 (min 100 (Math_round (honestyPenalised es))))"


section \<open>Future regret simulator\<close>

record regret_types =
  attentionDrain :: real
  burnout :: real
  habitualScrolling :: real

record regret_data =
  entries :: "int usage_entry list"
  dailyAvg :: real
  lateNightFrequency :: real
  intentDriftFrequency :: real
  riskScoreTrend :: string
  honestyScore :: real

record regret_analysis =
  regretScore :: real
  regretLevel :: string
  regretTypes :: regret_types
  dominantType :: string

text \<open>
  Each factor updates the pair of the running \<open>regretScore\<close> and the \<open>regretTypes\<close>
  accumulators.
\<close>

definition factorDailyAvg :: "real \<Rightarrow> real \<times> regret_types \<Rightarrow> real \<times> regret_types" where
  "factorDailyAvg v = (\<lambda>(s, t).
     if v \<ge> 240 then
       (s + 30, t\<lparr>attentionDrain := attentionDrain t + 20, burnout := burnout t + 10\<rparr>)
     else if v \<ge> 180 then
       (s + 20, t\<lparr>attentionDrain := attentionDrain t + 15, burnout := burnout t + 5\<rparr>)
     else if v \<ge> 120 then
       (s + 10, t\<lparr>attentionDrain := attentionDrain t + 10\<rparr>)
     else (s, t))"

definition factorLateNight :: "real \<Rightarrow> real \<times> regret_types \<Rightarrow> real \<times> regret_types" where
  "factorLateNight v = (\<lambda>(s, t).
     if v \<ge> 0.5 then
       (s + 25, t\<lparr>burnout := burnout t + 20, habitualScrolling := habitualScrolling t + 5\<rparr>)
     else if v \<ge> fl 0.3 then
       (s + 15, t\<lparr>burnout := burnout t + 15\<rparr>)
     else if v \<ge> fl 0.15 then
       (s + 8, t\<lparr>burnout := burnout t + 8\<rparr>)
     else (s, t))"

definition factorIntentDrift :: "real \<Rightarrow> real \<times> regret_types \<Rightarrow> real \<times> regret_types" where
  "factorIntentDrift v = (\<lambda>(s, t).
     if v \<ge> fl 0.6 then
       (s + 25, t\<lparr>habitualScrolling := habitualScrolling t + 20,
                   attentionDrain := attentionDrain t + 5\<rparr>)
     else if v \<ge> fl 0.4 then
       (s + 15, t\<lparr>habitualScrolling := habitualScrolling t + 15\<rparr>)
     else if v \<ge> fl 0.2 then
       (s + 8, t\<lparr>habitualScrolling := habitualScrolling t + 8\<rparr>)
     else (s, t))"

definition factorRiskTrend :: "string \<Rightarrow> real \<times> regret_types \<Rightarrow> real \<times> regret_types" where
  "factorRiskTrend v = (\<lambda>(s, t).
     if v = ''increasing'' then
       (s + 10, t\<lparr>attentionDrain := attentionDrain t + 5, burnout := burnout t + 5\<rparr>)
     else if v = ''stable_high'' then
       (s + 5, t\<lparr>habitualScrolling := habitualScrolling t + 5\<rparr>)
     else (s, t))"

definition factorHonesty :: "real \<Rightarrow> real \<times> regret_types \<Rightarrow> real \<times> regret_types" where
  "factorHonesty v = (\<lambda>(s, t).
     if v < 60 then (s + 10, t\<lparr>habitualScrolling := habitualScrolling t + 5\<rparr>)
     else if v < 80 then (s + 5, t)
     else (s, t))"

text \<open>\<open>regretTypes[k]\<close> for the three own keys, in the order \<open>Object.keys\<close> lists them.\<close>

definition regretTypeKeys :: "string list" where
  "regretTypeKeys = [''attentionDrain'', ''burnout'', ''habitualScrolling'']"

definition typeValue :: "regret_types \<Rightarrow> string \<Rightarrow> real" where
  "typeValue t k =
     (if k = ''attentionDrain'' then attentionDrain t
      else if k = ''burnout'' then burnout t
      else habitualScrolling t)"

text \<open>\<open>keys.reduce((a, b) => regretTypes[a] > regretTypes[b] ? a : b)\<close>, no initial value.\<close>

definition reduceDominant :: "regret_types \<Rightarrow> string list \<Rightarrow> string" where
  "reduceDominant t keys =
     foldl (\<lambda>a b. if typeValue t a > typeValue t b then a else b) (hd keys) (tl keys)"

definition analyzeRegretPatterns :: "regret_data \<Rightarrow> regret_analysis" where
  "analyzeRegretPatterns data =
     (let init = (0, \<lparr>attentionDrain = 0, burnout = 0, habitualScrolling = 0\<rparr>);
          (total, types) =
             factorHonesty (honestyScore data)
               (factorRiskTrend (riskScoreTrend data)
                 (factorIntentDrift (intentDriftFrequency data)
                   (factorLateNight (lateNightFrequency data)
                     (factorDailyAvg (dailyAvg data) init))));
          clamped = min 100 (max 0 total);
          lvl = (if clamped \<ge> 70 then ''high'' else if clamped \<ge> 40 then ''medium'' else ''low'')
      in \<lparr>regretScore = clamped, regretLevel = lvl, regretTypes = types,
           dominantType = reduceDominant types regretTypeKeys\<rparr>)"


section \<open>Digital mirror mode\<close>

text \<open>
  The insight objects. The field \<open>intention\<close> of an insight holds the capitalised text and
  is named \<open>intentionText\<close> here, after the variable the source assigns to it.
\<close>

record mirror_insight =
  intentionText :: string
  pattern :: string
  count :: nat
  foundItRate :: real
  avgMinutes :: real
  lateNightCount :: nat
  repeatedOpens :: nat
  message :: string

text \<open>
  What the functions take from their environment: the local hour of a time value
  (\<open>Date.prototype.getHours\<close>, which depends on the time zone of the process), and the
  Unicode case mappings of \<open>toLowerCase\<close> and of \<open>charAt(0).toUpperCase()\<close> on strings
  that are not pure ASCII. Strings are byte strings; on strings of ASCII characters the case
  mappings are fixed and are defined below.
\<close>

record js_env =
  getHours :: "int \<Rightarrow> nat"
  toLowerCaseUnicode :: "string \<Rightarrow> string"
  capitalizeFirstUnicode :: "string \<Rightarrow> string"

definition isAscii :: "char \<Rightarrow> bool" where
  "isAscii c \<longleftrightarrow> (of_char c :: nat) < 128"

definition toLowerCaseChar :: "char \<Rightarrow> char" where
  "toLowerCaseChar c =
     (let n = (of_char c :: nat) in if 65 \<le> n \<and> n \<le> 90 then char_of (n + 32) else c)"

definition toUpperCaseChar :: "char \<Rightarrow> char" where
  "toUpperCaseChar c =
     (let n = (of_char c :: nat) in if 97 \<le> n \<and> n \<le> 122 then char_of (n - 32) else c)"

definition toLowerCase :: "js_env \<Rightarrow> string \<Rightarrow> string" where
  "toLowerCase env str =
     (if list_all isAscii str then map toLowerCaseChar str else toLowerCaseUnicode env str)"

text \<open>\<open>str.charAt(0).toUpperCase() + str.slice(1)\<close>.\<close>

definition capitalizeFirst :: "js_env \<Rightarrow> string \<Rightarrow> string" where
  "capitalizeFirst env str =
     (case str of
        [] \<Rightarrow> []
      | c # cs \<Rightarrow> if isAscii c then toUpperCaseChar c # cs else capitalizeFirstUnicode env str)"

text \<open>
  Numbers inside the template literals: counts and results of \<open>Math.round\<close> on a double,
  printed in decimal (the form JavaScript uses for integral numbers below \<open>10^21\<close> in
  magnitude).
\<close>

fun showNat :: "nat \<Rightarrow> string" where
  "showNat n =
     (if n < 10 then [char_of (48 + n)] else showNat (n div 10) @ [char_of (48 + n mod 10)])"

definition showRounded :: "real \<Rightarrow> string" where
  "showRounded x =
     (let i = \<lfloor>x + 1 / 2\<rfloor> in if i < 0 then CHR ''-'' # showNat (nat (- i)) else showNat (nat i))"

text \<open>
  \<open>if (!m.has(k)) m.set(k, []); m.get(k).push(x)\<close> on an insertion-ordered map of arrays.
\<close>

definition pushInto :: "('k \<times> 'a list) list \<Rightarrow> 'k \<Rightarrow> 'a \<Rightarrow> ('k \<times> 'a list) list" where
  "pushInto m k x = Map_set m k ((case Map_get m k of None \<Rightarrow> [] | Some xs \<Rightarrow> xs) @ [x])"

text \<open>
  Grouping by lower-cased intention. Every entry reaching this loop has passed the filter
  \<open>e.intention && e.foundIt !== null\<close>, so its intention is a non-empty string.
\<close>

fun groupByIntention ::
  "js_env \<Rightarrow> (string \<times> int usage_entry list) list \<Rightarrow> int usage_entry list
     \<Rightarrow> (string \<times> int usage_entry list) list" where
  "groupByIntention env groups [] = groups"
| "groupByIntention env groups (entry # rest) =
     (case intention entry of
        Some s \<Rightarrow> groupByIntention env (pushInto groups (toLowerCase env s) entry) rest
      | None \<Rightarrow> groupByIntention env groups rest)"

text \<open>The late-night test reads the local hour of \<open>createdAt\<close>.\<close>

definition isLateNight :: "js_env \<Rightarrow> int usage_entry \<Rightarrow> bool" where
  "isLateNight env entry =
     (case createdAt entry of
        Some t \<Rightarrow> (let hour = getHours env t in hour \<ge> 22 \<or> hour < 6)
      | None \<Rightarrow> False)"

text \<open>The body of \<open>intentionGroups.forEach\<close>: at most one \<open>insights.push\<close>.\<close>

definition analyzeGroup ::
  "js_env \<Rightarrow> string \<Rightarrow> int usage_entry list \<Rightarrow> mirror_insight list
     \<Rightarrow> mirror_insight list" where
  "analyzeGroup env intent groupEntries insights =
     (let totalCount = length groupEntries;
          foundItCount = length (filter (\<lambda>e. foundIt e = Some True) groupEntries);
          notFoundCount = length (filter (\<lambda>e. foundIt e = Some False) groupEntries);
          rate = fdiv (real foundItCount) (real totalCount);
          avg = fdiv (fold (\<lambda>e sum. fadd sum (parseMinutes e)) groupEntries 0)
                  (real totalCount);
          lateNight = length (filter (isLateNight env) groupEntries);
          sameDayEntries = fold (\<lambda>entry m. pushInto m (date entry) entry) groupEntries [];
          repeated = length (filter (\<lambda>dayEntries. length dayEntries > 1)
                                    (map snd sameDayEntries));
          txt = capitalizeFirst env intent
      in if rate < 0.5 \<and> totalCount \<ge> 3 then
           insights @
           [\<lparr>intentionText = txt, pattern = ''not_found'', count = totalCount,
             foundItRate = rate, avgMinutes = Math_round avg, lateNightCount = lateNight,
             repeatedOpens = repeated,
             message = ''You opened apps to '' @ toLowerCase env txt @ ''. You didn''
               @ [char_of (39 :: nat)] @ ''t find it '' @ showNat notFoundCount @ '' out of ''
               @ showNat totalCount @ '' times. This pattern occurred ''
               @ showNat totalCount @ '' times.''\<rparr>]
         else if avg > 60 \<and> rate < fl 0.7 then
           insights @
           [\<lparr>intentionText = txt, pattern = ''long_session_not_found'', count = totalCount,
             foundItRate = rate, avgMinutes = Math_round avg, lateNightCount = lateNight,
             repeatedOpens = repeated,
             message = ''You opened apps to '' @ toLowerCase env txt
               @ ''. You spent an average of '' @ showRounded avg
               @ '' minutes but only found what you were looking for ''
               @ showRounded (fmul rate 100) @ ''% of the time.''\<rparr>]
         else if lateNight > 0 \<and> fdiv (real lateNight) (real totalCount) > fl 0.4 then
           insights @
           [\<lparr>intentionText = txt, pattern = ''late_night'', count = totalCount,
             foundItRate = rate, avgMinutes = Math_round avg, lateNightCount = lateNight,
             repeatedOpens = repeated,
             message = ''You opened apps to '' @ toLowerCase env txt @ '' ''
               @ showNat lateNight
               @ '' times late at night. You closed them feeling ''
               @ (if rate < 0.5 then ''more tired'' else ''unsatisfied'')
               @ ''. This pattern occurred '' @ showNat totalCount
               @ '' times this week.''\<rparr>]
         else insights)"

text \<open>The filter \<open>e.intention && e.foundIt !== null\<close>: an empty string is falsy.\<close>

definition hasIntention :: "int usage_entry \<Rightarrow> bool" where
  "hasIntention e \<longleftrightarrow>
     (case intention e of None \<Rightarrow> False | Some s \<Rightarrow> s \<noteq> []) \<and> foundIt e \<noteq> None"

definition analyzeMirrorPatterns ::
  "js_env \<Rightarrow> int usage_entry list option \<Rightarrow> mirror_insight list" where
  "analyzeMirrorPatterns env ents =
     (case ents of
        None \<Rightarrow> []
      | Some es \<Rightarrow>
          if length es = 0 then []
          else
            (let entriesWithIntention = filter hasIntention es
             in if length entriesWithIntention = 0 then []
                else
                  (let intentionGroups = groupByIntention env [] entriesWithIntention;
                       insights = fold (\<lambda>(intent, groupEntries) ins.
                                          analyzeGroup env intent groupEntries ins)
                                    intentionGroups []
                   in sort_key (\<lambda>i. - int (count i)) insights)))"


section \<open>Auxiliary definitions for the statements\<close>

text \<open>The state after the five factors, started from zero.\<close>

definition regretFactors :: "regret_data \<Rightarrow> real \<times> regret_types" where
  "regretFactors d =
     factorHonesty (honestyScore d)
       (factorRiskTrend (riskScoreTrend d)
         (factorIntentDrift (intentDriftFrequency d)
           (factorLateNight (lateNightFrequency d)
             (factorDailyAvg (dailyAvg d)
                (0, \<lparr>attentionDrain = 0, burnout = 0, habitualScrolling = 0\<rparr>)))))"


text \<open>
  The penalties of the honesty score on the sorted entries: the gap penalty summed over the
  consecutive pairs, and the number of unrealistic entries.
\<close>

definition gapTotal :: "int usage_entry list \<Rightarrow> int" where
  "gapTotal s =
     (\<Sum>i\<leftarrow>[1..<length s].
        let g = daysDiff (date (s ! (i - 1))) (date (s ! i))
        in if g > 7 then min 30 ((g - 7) * 5) else 0)"

definition unrealisticCount :: "int usage_entry list \<Rightarrow> nat" where
  "unrealisticCount es = length (filter (\<lambda>e. minutesSpent e > 960) es)"

text \<open>
  The mean of the three entries before index \<open>i\<close>, as the spike loop computes it: the sum
  from the left, started at 0, then the division by 3, each on doubles.
\<close>

definition recentMean :: "int usage_entry list \<Rightarrow> nat \<Rightarrow> real" where
  "recentMean s i =
     fdiv (fadd (fadd (fadd 0 (minutesSpent (s ! (i - 3)))) (minutesSpent (s ! (i - 2))))
                (minutesSpent (s ! (i - 1))))
          3"

text \<open>
  The share of entries of a group whose \<open>foundIt\<close> is true, as the code computes it: the
  quotient of the two counts on doubles.
\<close>

definition foundRate :: "int usage_entry list \<Rightarrow> real" where
  "foundRate g =
     fdiv (real (length (filter (\<lambda>e. foundIt e = Some True) g))) (real (length g))"


section \<open>Example inputs\<close>

text \<open>A backend log of one app on the UTC day \<open>d\<close> (at midnight).\<close>

definition dayLog :: "string \<Rightarrow> int \<Rightarrow> real \<Rightarrow> js_date usage_log" where
  "dayLog a d m = \<lparr>appName = a, minutesSpent = m, date = Date (d * msPerDay)\<rparr>"

text \<open>Seven consecutive days with 60 minutes each on a single app.\<close>

definition weekOf60 :: "js_date usage_log list" where
  "weekOf60 = map (\<lambda>d. dayLog ''app'' d 60) [0, 1, 2, 3, 4, 5, 6]"

text \<open>A frontend entry of one app on the day \<open>d\<close>, without the optional fields.\<close>

definition dayEntry :: "int \<Rightarrow> real \<Rightarrow> int usage_entry" where
  "dayEntry d m = \<lparr>appName = ''app'', minutesSpent = m, date = d * msPerDay,
                    createdAt = None, intention = None, foundIt = None\<rparr>"

text \<open>An all-zero input of the regret analysis.\<close>

definition quietData :: regret_data where
  "quietData = \<lparr>entries = [], dailyAvg = 0, lateNightFrequency = 0, intentDriftFrequency = 0,
                 riskScoreTrend = ''stable'', honestyScore = 100\<rparr>"


text \<open>Four consecutive days with the given daily totals.\<close>

definition fourDays :: "real \<Rightarrow> real \<Rightarrow> real \<Rightarrow> real \<Rightarrow> js_date usage_log list" where
  "fourDays a b c d = [dayLog ''app'' 0 a, dayLog ''app'' 1 b, dayLog ''app'' 2 c, dayLog ''app'' 3 d]"


text \<open>Six consecutive days with the daily totals 20, 15, 15, 15, 15, 15.\<close>

definition sixDays :: "js_date usage_log list" where
  "sixDays = [dayLog ''app'' 0 20, dayLog ''app'' 1 15, dayLog ''app'' 2 15,
              dayLog ''app'' 3 15, dayLog ''app'' 4 15, dayLog ''app'' 5 15]"

text \<open>An environment whose local hour is always 12.\<close>

definition noonEnv :: js_env where
  "noonEnv = \<lparr>getHours = (\<lambda>t. 12), toLowerCaseUnicode = (\<lambda>s. s),
                capitalizeFirstUnicode = (\<lambda>s. s)\<rparr>"

text \<open>An entry with the intention \<open>relax\<close> that did not find it.\<close>

definition relaxEntry :: "int \<Rightarrow> int usage_entry" where
  "relaxEntry d = \<lparr>appName = ''app'', minutesSpent = 10, date = d * msPerDay,
                    createdAt = None, intention = Some ''relax'', foundIt = Some False\<rparr>"


section \<open>Rounding to doubles: sign and monotonicity\<close>

lemma ilog2_bounds: "0 < n \<Longrightarrow> 2 ^ ilog2 n \<le> n \<and> n < 2 ^ Suc (ilog2 n)"
proof (induction n rule: ilog2.induct)
  case (1 n)
  show ?case
  proof (cases "n < 2")
    case True
    with "1.prems" have "n = 1"
      by simp
    then show ?thesis
      by (simp add: ilog2.simps)
  next
    case False
    then have pos: "0 < n div 2"
      by simp
    from "1.IH" [OF False pos] have lo: "2 ^ ilog2 (n div 2) \<le> n div 2"
      and hi: "n div 2 < 2 ^ Suc (ilog2 (n div 2))"
      by simp_all
    have eq: "ilog2 n = Suc (ilog2 (n div 2))"
      using False by (subst ilog2.simps) simp
    from lo have "2 * 2 ^ ilog2 (n div 2) \<le> n"
      by linarith
    moreover from hi have "n < 2 * 2 ^ Suc (ilog2 (n div 2))"
      by linarith
    ultimately show ?thesis
      by (simp add: eq)
  qed
qed

lemma binaryExponent_bracket:
  assumes "0 < a"
  shows "2 powi binaryExponent a \<le> a \<and> a < 2 powi (binaryExponent a + 1)"
proof (cases "1 \<le> a")
  case True
  define n where "n = nat \<lfloor>a\<rfloor>"
  have npos: "0 < n"
    using True by (simp add: n_def)
  have na: "real n \<le> a" "a < real n + 1"
    using True by (simp_all add: n_def)
  from ilog2_bounds [OF npos] have "2 ^ ilog2 n \<le> n" "Suc n \<le> 2 ^ Suc (ilog2 n)"
    by simp_all
  then have "real (2 ^ ilog2 n) \<le> real n" "real (Suc n) \<le> real (2 ^ Suc (ilog2 n))"
    by (simp_all only: of_nat_le_iff)
  then have "(2::real) ^ ilog2 n \<le> real n" "real n + 1 \<le> (2::real) ^ Suc (ilog2 n)"
    by simp_all
  then have "(2::real) ^ ilog2 n \<le> a" "a < (2::real) ^ Suc (ilog2 n)"
    using na by linarith+
  moreover have "binaryExponent a = int (ilog2 n)"
    using True by (simp add: binaryExponent_def n_def)
  moreover have "int (ilog2 n) + 1 = int (Suc (ilog2 n))"
    by simp
  ultimately show ?thesis
    by (simp only: power_int_of_nat)
next
  case False
  define y where "y = 1 / a"
  define m where "m = nat (\<lceil>y\<rceil> - 1)"
  define k where "k = ilog2 m"
  have y1: "1 < y"
    using False assms by (simp add: y_def)
  then have c2: "2 \<le> \<lceil>y\<rceil>"
    by linarith
  then have mpos: "0 < m" and m: "int m = \<lceil>y\<rceil> - 1"
    by (simp_all add: m_def)
  from ilog2_bounds [OF mpos] have "(2::int) ^ k \<le> int m" "int m < 2 ^ Suc k"
    unfolding k_def
    by (metis of_nat_le_iff of_nat_numeral of_nat_power,
        metis of_nat_less_iff of_nat_numeral of_nat_power)
  then have "(2::int) ^ k < \<lceil>y\<rceil>" "\<lceil>y\<rceil> \<le> 2 ^ Suc k"
    using m by simp_all
  then have "(2::real) ^ k < y" "y \<le> 2 ^ Suc k"
    by (metis less_ceiling_iff of_int_numeral of_int_power,
        metis ceiling_le_iff of_int_numeral of_int_power)
  then have lo: "1 / 2 ^ Suc k \<le> a" and hi: "a < 1 / 2 ^ k"
    using assms by (simp_all add: y_def field_simps)
  have e: "binaryExponent a = - int (Suc k)"
    using False by (simp add: binaryExponent_def k_def m_def y_def)
  have "(2::real) powi (- int (Suc k)) = 1 / 2 ^ Suc k"
    by (simp only: power_int_minus power_int_of_nat inverse_eq_divide)
  moreover have "- int (Suc k) + 1 = - int k"
    by simp
  moreover have "(2::real) powi (- int k) = 1 / 2 ^ k"
    by (simp only: power_int_minus power_int_of_nat inverse_eq_divide)
  ultimately show ?thesis
    using lo hi by (simp only: e)
qed

lemma roundTiesToEven_of_int: "roundTiesToEven (of_int n) = n"
  by (simp add: roundTiesToEven_def)

lemma roundTiesToEven_range:
  "\<lfloor>a\<rfloor> \<le> roundTiesToEven a \<and> roundTiesToEven a \<le> \<lfloor>a\<rfloor> + 1"
  by (simp add: roundTiesToEven_def Let_def)

lemma roundTiesToEven_mono:
  assumes "a \<le> b"
  shows "roundTiesToEven a \<le> roundTiesToEven b"
proof (cases "\<lfloor>a\<rfloor> = \<lfloor>b\<rfloor>")
  case True
  with assms have "a - of_int \<lfloor>a\<rfloor> \<le> b - of_int \<lfloor>b\<rfloor>"
    by simp
  then show ?thesis
    using True by (auto simp add: roundTiesToEven_def Let_def)
next
  case False
  with assms have "\<lfloor>a\<rfloor> + 1 \<le> \<lfloor>b\<rfloor>"
    using floor_mono [OF assms] by linarith
  then show ?thesis
    using roundTiesToEven_range [of a] roundTiesToEven_range [of b] by linarith
qed

lemma fl_zero: "fl 0 = 0"
  by (simp add: fl_def)

lemma fl_pos_eq:
  "0 < x \<Longrightarrow> fl x = 2 powi (binaryExponent x - 52)
                   * of_int (roundTiesToEven (x / 2 powi (binaryExponent x - 52)))"
  by (simp add: fl_def Let_def)

text \<open>A positive number and its rounding lie between the same two powers of 2.\<close>

lemma fl_pos_bracket:
  assumes "0 < x"
  shows "2 powi binaryExponent x \<le> fl x \<and> fl x \<le> 2 powi (binaryExponent x + 1)"
proof -
  define e where "e = binaryExponent x"
  define u :: real where "u = 2 powi (e - 52)"
  have upos: "0 < u"
    by (simp add: u_def)
  have u52: "u * 2 ^ 52 = 2 powi e"
    unfolding u_def by (simp add: power_int_diff)
  have u53: "u * 2 ^ 53 = 2 powi (e + 1)"
    unfolding u_def by (simp add: power_int_diff power_int_add)
  from binaryExponent_bracket [OF assms] have "2 powi e \<le> x" "x < 2 powi (e + 1)"
    by (simp_all add: e_def)
  then have "2 ^ 52 \<le> x / u" "x / u \<le> 2 ^ 53"
    using upos u52 u53 by (simp_all add: field_simps)
  then have "roundTiesToEven (of_int (2 ^ 52)) \<le> roundTiesToEven (x / u)"
    "roundTiesToEven (x / u) \<le> roundTiesToEven (of_int (2 ^ 53))"
    by (intro roundTiesToEven_mono; simp)+
  then have "2 ^ 52 \<le> roundTiesToEven (x / u)" "roundTiesToEven (x / u) \<le> 2 ^ 53"
    by (simp_all only: roundTiesToEven_of_int)
  then have "(2::real) ^ 52 \<le> of_int (roundTiesToEven (x / u))"
    "of_int (roundTiesToEven (x / u)) \<le> (2::real) ^ 53"
    by (metis of_int_le_iff of_int_numeral of_int_power)+
  then have "u * 2 ^ 52 \<le> u * of_int (roundTiesToEven (x / u))"
    "u * of_int (roundTiesToEven (x / u)) \<le> u * 2 ^ 53"
    using upos by simp_all
  then show ?thesis
    unfolding u52 u53 by (simp add: fl_pos_eq [OF assms] e_def u_def)
qed

lemma fl_pos:
  assumes "0 < x"
  shows "0 < fl x"
proof -
  have "(0::real) < 2 powi binaryExponent x"
    by simp
  then show ?thesis
    using fl_pos_bracket [OF assms] by linarith
qed

lemma fl_nonneg: "0 \<le> x \<Longrightarrow> 0 \<le> fl x"
  using fl_pos [of x] fl_zero by (cases "x = 0") auto

lemma fl_minus: "fl (- x) = - fl x"
  by (simp add: fl_def Let_def sgn_minus)

lemma fl_nonpos: "x \<le> 0 \<Longrightarrow> fl x \<le> 0"
  using fl_nonneg [of "- x"] by (simp add: fl_minus)

lemma binaryExponent_mono:
  assumes "0 < x" "x \<le> y"
  shows "binaryExponent x \<le> binaryExponent y"
proof (rule ccontr)
  assume "\<not> binaryExponent x \<le> binaryExponent y"
  then have "binaryExponent y + 1 \<le> binaryExponent x"
    by simp
  then have "(2::real) powi (binaryExponent y + 1) \<le> 2 powi binaryExponent x"
    by (intro power_int_increasing) simp_all
  moreover have "y < 2 powi (binaryExponent y + 1)" "2 powi binaryExponent x \<le> x"
    using binaryExponent_bracket [of x] binaryExponent_bracket [of y] assms by simp_all
  ultimately show False
    using assms by linarith
qed

lemma fl_mono_pos:
  assumes "0 < x" "x \<le> y"
  shows "fl x \<le> fl y"
proof (cases "binaryExponent x = binaryExponent y")
  case True
  define u :: real where "u = 2 powi (binaryExponent y - 52)"
  have upos: "0 < u"
    by (simp add: u_def)
  have "x / u \<le> y / u"
    using assms upos by (simp add: divide_right_mono)
  then have "roundTiesToEven (x / u) \<le> roundTiesToEven (y / u)"
    by (rule roundTiesToEven_mono)
  then have "u * of_int (roundTiesToEven (x / u)) \<le> u * of_int (roundTiesToEven (y / u))"
    using upos by simp
  moreover have "0 < y"
    using assms by simp
  ultimately show ?thesis
    using assms(1) by (simp add: fl_pos_eq True u_def)
next
  case False
  have ypos: "0 < y"
    using assms by simp
  from False binaryExponent_mono [OF assms] have "binaryExponent x + 1 \<le> binaryExponent y"
    by simp
  then have "(2::real) powi (binaryExponent x + 1) \<le> 2 powi binaryExponent y"
    by (intro power_int_increasing) simp_all
  then show ?thesis
    using fl_pos_bracket [OF assms(1)] fl_pos_bracket [OF ypos] by linarith
qed

lemma fl_mono_nonneg:
  assumes "0 \<le> x" "x \<le> y"
  shows "fl x \<le> fl y"
proof (cases "x = 0")
  case True
  then show ?thesis
    using fl_nonneg [of y] assms by (simp add: fl_zero)
next
  case False
  with assms show ?thesis
    by (intro fl_mono_pos) simp_all
qed

text \<open>Numbers with at most 53 significant bits are doubles.\<close>

lemma fl_integral_significand:
  assumes "0 < x" and "x / 2 powi (binaryExponent x - 52) = of_int j"
  shows "fl x = x"
proof -
  have "(2::real) powi (binaryExponent x - 52) \<noteq> 0"
    by simp
  then have "2 powi (binaryExponent x - 52) * (x / 2 powi (binaryExponent x - 52)) = x"
    by simp
  then show ?thesis
    unfolding fl_pos_eq [OF assms(1)] assms(2) roundTiesToEven_of_int
    by (simp only: assms(2) [symmetric])
qed

lemma fl_dyadic_pos:
  assumes "0 < m" "m < 2 ^ 53"
  shows "fl (of_int m / 2 ^ k) = of_int m / 2 ^ k"
proof -
  define x :: real where "x = of_int m / 2 ^ k"
  define e where "e = binaryExponent x"
  have xpos: "0 < x"
    using assms(1) by (simp add: x_def)
  have "real_of_int m < 2 ^ 53"
    using assms(2) by (metis of_int_less_iff of_int_numeral of_int_power)
  then have "x < 2 ^ 53 / 2 ^ k"
    by (simp add: x_def divide_strict_right_mono)
  also have "\<dots> = 2 powi (53 - int k)"
    by (simp add: power_int_diff)
  finally have "2 powi e < (2::real) powi (53 - int k)"
    using binaryExponent_bracket [OF xpos] by (simp add: e_def)
  then have "e < 53 - int k"
  proof (rule contrapos_pp)
    assume "\<not> e < 53 - int k"
    then have "53 - int k \<le> e"
      by simp
    then have "(2::real) powi (53 - int k) \<le> 2 powi e"
      by (intro power_int_increasing) simp_all
    then show "\<not> 2 powi e < (2::real) powi (53 - int k)"
      by simp
  qed
  then have j: "int (nat (52 - int k - e)) = 52 - int k - e"
    by simp
  define u :: real where "u = 2 powi (e - 52)"
  have a: "(1::real) / 2 ^ k = 2 powi (- int k)"
    by (simp only: power_int_minus power_int_of_nat inverse_eq_divide)
  have "52 - e = - (e - 52)"
    by simp
  then have b: "1 / u = 2 powi (52 - e)"
    unfolding u_def by (simp only: power_int_minus inverse_eq_divide)
  have "x / u = of_int m * ((1 / 2 ^ k) * (1 / u))"
    by (simp add: x_def)
  also have "(1 / 2 ^ k) * (1 / u) = (2::real) powi (- int k + (52 - e))"
    unfolding a b by (rule power_int_add [symmetric]) simp
  also have "- int k + (52 - e) = int (nat (52 - int k - e))"
    using j by simp
  also have "of_int m * (2::real) powi int (nat (52 - int k - e))
               = of_int (m * 2 ^ nat (52 - int k - e))"
    by (simp only: power_int_of_nat of_int_mult of_int_power of_int_numeral)
  finally have "x / 2 powi (binaryExponent x - 52) = of_int (m * 2 ^ nat (52 - int k - e))"
    by (simp only: e_def u_def)
  from fl_integral_significand [OF xpos this] show ?thesis
    by (simp add: x_def)
qed

lemma fl_dyadic:
  assumes "\<bar>m\<bar> < 2 ^ 53"
  shows "fl (of_int m / 2 ^ k) = of_int m / 2 ^ k"
proof (cases "m = 0")
  case True
  then show ?thesis
    by (simp add: fl_zero)
next
  case False
  show ?thesis
  proof (cases "0 < m")
    case True
    with assms show ?thesis
      by (intro fl_dyadic_pos) simp_all
  next
    case neg: False
    with False assms have "0 < - m" "- m < 2 ^ 53"
      by simp_all
    from fl_dyadic_pos [OF this, of k] show ?thesis
      using fl_minus [of "of_int (- m) / 2 ^ k"] by simp
  qed
qed

lemma fl_numeral [simp]: "numeral n < (2::int) ^ 53 \<Longrightarrow> fl (numeral n) = numeral n"
  using fl_dyadic [of "numeral n" 0] by simp

lemma fl_one [simp]: "fl 1 = 1"
  using fl_dyadic [of 1 0] by simp

lemma fl_half_numeral [simp]:
  "numeral n < (2::int) ^ 53 \<Longrightarrow> fl (numeral n / 2) = numeral n / 2"
  using fl_dyadic [of "numeral n" 1] by simp

lemma fl_one_half [simp]: "fl (1 / 2) = 1 / 2"
  using fl_dyadic [of 1 1] by simp

text \<open>The doubles nearest to 1.1 and 0.9, between doubles that bound them.\<close>

lemma fl_literal_bounds:
  "1 \<le> fl 1.1" "fl 1.1 \<le> 2" "1 / 2 \<le> fl 0.9" "fl 0.9 \<le> 1"
proof -
  have "fl 1 \<le> fl 1.1" "fl 1.1 \<le> fl 2" "fl (1 / 2) \<le> fl 0.9" "fl 0.9 \<le> fl 1"
    by (intro fl_mono_nonneg; simp)+
  then show "1 \<le> fl 1.1" "fl 1.1 \<le> 2" "1 / 2 \<le> fl 0.9" "fl 0.9 \<le> 1"
    by simp_all
qed

text \<open>A double is not above its product by 1.1 and not below its product by 0.9.\<close>

lemma fmul_literal_bounds:
  assumes "0 \<le> f" "fl f = f"
  shows "f \<le> fmul f (fl 1.1)" "fmul f (fl 0.9) \<le> f"
proof -
  have "f * 1 \<le> f * fl 1.1" "f * fl 0.9 \<le> f * 1"
    using assms(1) fl_literal_bounds by (intro mult_left_mono; simp)+
  then have "fl f \<le> fl (f * fl 1.1)" "fl (f * fl 0.9) \<le> fl f"
    using assms(1) fl_literal_bounds(3) by (intro fl_mono_nonneg; simp)+
  then show "f \<le> fmul f (fl 1.1)" "fmul f (fl 0.9) \<le> f"
    by (simp_all add: fmul_def assms(2))
qed

lemma reduce_fold_nonneg:
  "0 \<le> s \<Longrightarrow> \<forall>v \<in> set xs. 0 \<le> v \<Longrightarrow> 0 \<le> fold (\<lambda>b a. fadd a b) xs s"
  by (induction xs arbitrary: s) (simp_all add: fadd_def fl_nonneg)

lemma reduce_sum_nonneg: "\<forall>v \<in> set xs. 0 \<le> v \<Longrightarrow> 0 \<le> reduce_sum xs"
  by (simp add: reduce_sum_def reduce_fold_nonneg)


section \<open>Grouping by day\<close>

lemma Map_get_fresh: "k \<notin> fst ` set m \<Longrightarrow> Map_get m k = None"
  by (induction m) auto

lemma Map_set_fresh: "k \<notin> fst ` set m \<Longrightarrow> Map_set m k v = m @ [(k, v)]"
  by (induction m) auto

lemma keys_Map_set: "fst ` set (Map_set m k v) = insert k (fst ` set m)"
  by (induction m k v rule: Map_set.induct) (simp_all add: insert_commute)

lemma distinct_Map_set: "distinct (map fst m) \<Longrightarrow> distinct (map fst (Map_set m k v))"
  by (induction m k v rule: Map_set.induct) (auto simp add: keys_Map_set)

lemma Map_set_values:
  "(k', v') \<in> set (Map_set m k v) \<Longrightarrow> (k', v') \<in> set m \<or> v' = v"
  by (induction m) (auto split: if_splits)

lemma Map_get_in: "Map_get m k = Some v \<Longrightarrow> (k, v) \<in> set m"
  by (induction m) (auto split: if_splits)

text \<open>Logs on pairwise distinct days: every day keeps its own entry, in the order met.\<close>

lemma groupByDate_distinct_days:
  "map (\<lambda>l. toISODate (date l)) logs = map Inr days \<Longrightarrow> distinct days
     \<Longrightarrow> set days \<inter> fst ` set acc = {}
     \<Longrightarrow> groupByDate acc logs
           = Inr (acc @ zip days (map (\<lambda>l. fadd 0 (minutesSpent l)) logs))"
proof (induction logs arbitrary: acc days)
  case Nil
  then show ?case by simp
next
  case (Cons l logs)
  then obtain d ds where days: "days = d # ds"
    by (cases days) auto
  from Cons.prems days have d: "toISODate (date l) = Inr d"
    and rest: "map (\<lambda>l. toISODate (date l)) logs = map Inr ds"
    and dist: "distinct ds" "d \<notin> set ds" and fresh: "d \<notin> fst ` set acc"
    "set ds \<inter> fst ` set acc = {}"
    by auto
  have "set ds \<inter> fst ` set (acc @ [(d, fadd 0 (minutesSpent l))]) = {}"
    using dist fresh by auto
  from Cons.IH [OF rest dist(1) this] show ?case
    using d fresh by (simp add: days Map_get_fresh Map_set_fresh)
qed

text \<open>The grouping loop in general: distinct keys, one per day met, non-negative totals.\<close>

lemma groupByDate_keys:
  "groupByDate acc logs = Inr dm \<Longrightarrow> map (\<lambda>l. toISODate (date l)) logs = map Inr days
     \<Longrightarrow> fst ` set dm = fst ` set acc \<union> set days"
proof (induction logs arbitrary: acc days)
  case Nil
  then show ?case by auto
next
  case (Cons l logs)
  then obtain d ds where days: "days = d # ds"
    by (cases days) auto
  from Cons.prems days have d: "toISODate (date l) = Inr d"
    and rest: "map (\<lambda>l. toISODate (date l)) logs = map Inr ds"
    by auto
  from Cons.prems(1) d obtain v where
    "groupByDate (Map_set acc d v) logs = Inr dm"
    by (simp add: Let_def)
  from Cons.IH [OF this rest] show ?case
    by (simp add: days keys_Map_set)
qed

lemma groupByDate_distinct:
  "groupByDate acc logs = Inr dm \<Longrightarrow> distinct (map fst acc) \<Longrightarrow> distinct (map fst dm)"
proof (induction logs arbitrary: acc)
  case Nil
  then show ?case by auto
next
  case (Cons l logs)
  then show ?case
    by (auto simp add: Let_def distinct_Map_set split: sum.splits)
qed

lemma groupByDate_nonneg:
  "groupByDate acc logs = Inr dm \<Longrightarrow> \<forall>l \<in> set logs. 0 \<le> minutesSpent l
     \<Longrightarrow> \<forall>v \<in> snd ` set acc. 0 \<le> v \<Longrightarrow> \<forall>v \<in> snd ` set dm. 0 \<le> v"
proof (induction logs arbitrary: acc)
  case Nil
  then show ?case by auto
next
  case (Cons l logs)
  from Cons.prems(1) obtain d where d: "toISODate (date l) = Inr d"
    by (auto split: sum.splits)
  define v where
    "v = fadd (case Map_get acc d of None \<Rightarrow> 0 | Some v \<Rightarrow> v) (minutesSpent l)"
  have step: "groupByDate (Map_set acc d v) logs = Inr dm"
    using Cons.prems(1) d by (simp add: Let_def v_def)
  have "0 \<le> (case Map_get acc d of None \<Rightarrow> 0 | Some v \<Rightarrow> v)"
    using Cons.prems(3) by (auto split: option.splits dest!: Map_get_in)
  then have v0: "0 \<le> v"
    using Cons.prems(2) by (simp add: v_def fadd_def fl_nonneg)
  have "\<forall>x \<in> snd ` set (Map_set acc d v). 0 \<le> x"
    using Cons.prems(3) v0 by (auto dest!: Map_set_values)
  from Cons.IH [OF step _ this] Cons.prems(2) show ?case
    by simp
qed

lemma groupByDate_days_returns:
  "map (\<lambda>l. toISODate (date l)) logs = map Inr days \<Longrightarrow> \<exists>dm. groupByDate acc logs = Inr dm"
proof (induction logs arbitrary: acc days)
  case Nil
  then show ?case by simp
next
  case (Cons l logs)
  then obtain d ds where days: "days = d # ds"
    by (cases days) auto
  with Cons show ?case
    by (auto simp add: Let_def)
qed


section \<open>A week of sixty minutes a day\<close>

lemma groupByApp_single:
  "\<forall>l \<in> set logs. appName l = a
     \<Longrightarrow> groupByApp [(a, x)] logs
           = [(a, fold (\<lambda>m acc. fadd acc m) (map minutesSpent logs) x)]"
  by (induction logs arbitrary: x) (simp_all add: Let_def)

lemma groupByApp_single_app:
  assumes "\<forall>l \<in> set logs. appName l = a" "logs \<noteq> []"
  shows "groupByApp [] logs = [(a, reduce_sum (map minutesSpent logs))]"
proof -
  obtain l ls where logs: "logs = l # ls"
    using assms(2) by (cases logs) auto
  have "groupByApp [] logs = groupByApp [(a, fadd 0 (minutesSpent l))] ls"
    using assms(1) by (simp add: logs Let_def)
  also have "\<dots> = [(a, fold (\<lambda>m acc. fadd acc m) (map minutesSpent ls)
                          (fadd 0 (minutesSpent l)))]"
    using assms(1) by (intro groupByApp_single) (simp add: logs)
  finally show ?thesis
    by (simp add: logs reduce_sum_def)
qed

lemma Math_round_of_int: "Math_round (of_int k) = of_int k"
proof -
  have "\<lfloor>real_of_int k + 1 / 2\<rfloor> = k"
    by linarith
  then show ?thesis
    by (simp add: Math_round_def)
qed

lemma Math_round_numeral: "Math_round (numeral n) = numeral n"
  using Math_round_of_int [of "numeral n"] by simp

lemma sevenfold: "replicate 7 x = [x, x, x, x, x, x, x]"
  by (simp add: eval_nat_numeral)

lemma week_totals:
  "reduce_sum (replicate 7 60) = 420"
  "Math_max0 (replicate 7 60) = 60"
  "fdiv (Math_round (fmul 420 100)) 100 = 420"
  "fdiv (Math_round (fmul (fdiv 420 7) 100)) 100 = 60"
  by (simp_all add: sevenfold reduce_sum_def Math_max0_def fadd_def fmul_def fdiv_def
      Math_round_numeral)

lemma week_trend: "computeTrend (replicate 7 60) = ''stable''"
proof -
  have halves: "fdiv (reduce_sum (slice (replicate 7 60) 0 3)) (real (3::nat)) = 60"
    "fdiv (reduce_sum (slice_from (replicate 7 60) 3)) (real (7 - 3 :: nat)) = 60"
    by (simp_all add: sevenfold slice_def slice_from_def reduce_sum_def fadd_def fdiv_def)
  have "(60::real) \<le> fmul 60 (fl 1.1)" "fmul 60 (fl 0.9) \<le> (60::real)"
    by (intro fmul_literal_bounds; simp)+
  then have "\<not> (60::real) > fmul 60 (fl 1.1)" "\<not> (60::real) < fmul 60 (fl 0.9)"
    by simp_all
  then show ?thesis
    using halves by (simp add: computeTrend_def Let_def)
qed

lemma week_points:
  "categorize (max 0 (min 100 (Math_round
      (fadd (fadd (fadd (fadd 0 (avgDailyPoints 60)) (peakPoints 60))
                  (fmul (fdiv (real 7) 7) 20))
            (trendPoints ''stable'')))))
     = \<lparr>score = 43, category = ''Moderate'', level = ''moderate''\<rparr>"
proof -
  have a: "avgDailyPoints 60 = 10"
    by (simp add: avgDailyPoints_def fadd_def fsub_def fmul_def fdiv_def fl_zero)
  have p: "peakPoints 60 = 5 / 2"
    by (simp add: peakPoints_def fmul_def fdiv_def)
  have c: "fmul (fdiv (real 7) 7) 20 = 20"
    by (simp add: fmul_def fdiv_def)
  have t: "trendPoints ''stable'' = 10"
    by (simp add: trendPoints_def)
  have r: "Math_round (85 / 2) = 43"
    by (simp add: Math_round_def)
  have s: "fadd (fadd (fadd (fadd 0 10) (5 / 2)) 20) 10 = 85 / 2"
    by (simp add: fadd_def)
  show ?thesis
    unfolding a p c t s r by (simp add: categorize_def)
qed

lemma calculateWeeklyStats_nonempty:
  "logs \<noteq> [] \<Longrightarrow> calculateWeeklyStats (Some logs) =
     (case groupByDate [] logs of
        Inl e \<Rightarrow> Inl e
      | Inr dateMap \<Rightarrow>
          Inr \<lparr>totalMinutes = fdiv (Math_round (fmul (reduce_sum (map snd dateMap)) 100)) 100,
               averageDailyMinutes =
                 fdiv (Math_round (fmul (fdiv (reduce_sum (map snd dateMap))
                                            (real (max 1 (length dateMap)))) 100)) 100,
               daysActive = length dateMap,
               trend = computeTrend (map snd dateMap),
               apps = sortedApps (groupByApp [] logs)\<rparr>)"
  by (cases logs) (simp, simp only: calculateWeeklyStats_def option.case list.case Let_def)

lemma calculateRiskScore_nonempty:
  "logs \<noteq> [] \<Longrightarrow> calculateRiskScore (Some logs) m =
     (case calculateWeeklyStats (Some logs) of
        Inl e \<Rightarrow> Inl e
      | Inr weeklyStats \<Rightarrow>
          (case groupByDate [] logs of
             Inl e \<Rightarrow> Inl e
           | Inr dateMap \<Rightarrow>
               Inr (categorize (max 0 (min 100 (Math_round
                 (fadd (fadd (fadd (fadd 0 (avgDailyPoints (averageDailyMinutes weeklyStats)))
                                   (peakPoints (Math_max0 (map snd dateMap))))
                             (fmul (fdiv (real (daysActive weeklyStats)) 7) 20))
                       (trendPoints (trend weeklyStats)))))))))"
  by (cases logs) (simp, simp only: calculateRiskScore_def option.case list.case Let_def)

lemma week_of_sixty:
  assumes days: "map (\<lambda>l. toISODate (date l)) logs = map Inr days" "distinct days"
    and len: "length logs = 7"
    and each: "\<forall>l \<in> set logs. minutesSpent l = 60 \<and> appName l = a"
  shows "calculateWeeklyStats (Some logs)
           = Inr \<lparr>totalMinutes = 420, averageDailyMinutes = 60, daysActive = 7,
                  trend = ''stable'', apps = [\<lparr>name = a, minutes = 420\<rparr>]\<rparr>"
    and "calculateRiskScore (Some logs) m
           = Inr \<lparr>score = 43, category = ''Moderate'', level = ''moderate''\<rparr>"
proof -
  have mins: "map minutesSpent logs = replicate 7 60"
  proof -
    have "map minutesSpent logs = map (\<lambda>_. 60) logs"
      using each by simp
    then show ?thesis
      by (simp add: map_replicate_const len)
  qed
  have fmins: "map (\<lambda>l. fadd 0 (minutesSpent l)) logs = replicate 7 60"
  proof -
    have "map (\<lambda>l. fadd 0 (minutesSpent l)) logs = map (\<lambda>_. 60) logs"
      using each by (simp add: fadd_def)
    then show ?thesis
      by (simp add: map_replicate_const len)
  qed
  have ldays: "length days = 7"
    using days(1) len by (metis length_map)
  have dm: "groupByDate [] logs = Inr (zip days (replicate 7 60))"
    using groupByDate_distinct_days [OF days, of "[]"] fmins by simp
  have totals: "map snd (zip days (replicate 7 (60 :: real))) = replicate 7 60"
    using ldays by simp
  have ne: "logs \<noteq> []"
    using len by auto
  have app: "groupByApp [] logs = [(a, 420)]"
    using groupByApp_single_app [OF _ ne, of a] each by (simp add: mins week_totals)
  show ws: "calculateWeeklyStats (Some logs)
           = Inr \<lparr>totalMinutes = 420, averageDailyMinutes = 60, daysActive = 7,
                  trend = ''stable'', apps = [\<lparr>name = a, minutes = 420\<rparr>]\<rparr>"
    using dm app totals ldays len
    by (simp add: calculateWeeklyStats_nonempty [OF ne] week_totals week_trend sortedApps_def)
  show "calculateRiskScore (Some logs) m
           = Inr \<lparr>score = 43, category = ''Moderate'', level = ''moderate''\<rparr>"
    using dm totals week_points len
    by (simp add: calculateRiskScore_nonempty [OF ne] ws week_totals)
qed

lemma weekOf60_hyps:
  "map (\<lambda>l. toISODate (date l)) weekOf60 = map Inr [0, 1, 2, 3, 4, 5, 6]"
  "distinct [0, 1, 2, 3, 4, 5, 6 :: int]"
  "length weekOf60 = 7"
  "\<forall>l \<in> set weekOf60. minutesSpent l = 60 \<and> appName l = ''app''"
  by (simp_all add: weekOf60_def dayLog_def msPerDay_def)

text \<open>
  C5. Seven logs of 60 minutes each on a single app, on pairwise distinct days (seven
  consecutive days in particular): the weekly statistics have an average of 60 minutes per
  day, 7 active days and a stable trend, and the risk score is 43, Moderate.
\<close>

theorem week_of_sixty_minutes:
  assumes days: "map (\<lambda>l. toISODate (date l)) logs = map Inr days" "distinct days"
    and len: "length logs = 7"
    and each: "\<forall>l \<in> set logs. minutesSpent l = 60 \<and> appName l = a"
  shows "calculateWeeklyStats (Some logs)
           = Inr \<lparr>totalMinutes = 420, averageDailyMinutes = 60, daysActive = 7,
                  trend = ''stable'', apps = [\<lparr>name = a, minutes = 420\<rparr>]\<rparr>
         \<and> calculateRiskScore (Some logs) m
           = Inr \<lparr>score = 43, category = ''Moderate'', level = ''moderate''\<rparr>"
  using week_of_sixty [OF assms] by simp

theorem week_of_sixty_minutes_witness:
  "map (\<lambda>l. toISODate (date l)) weekOf60 = map Inr [0, 1, 2, 3, 4, 5, 6]
   \<and> distinct [0, 1, 2, 3, 4, 5, 6 :: int]
   \<and> length weekOf60 = 7
   \<and> list_all (\<lambda>l. minutesSpent l = 60 \<and> appName l = ''app'') weekOf60
   \<and> calculateWeeklyStats (Some weekOf60)
       = Inr \<lparr>totalMinutes = 420, averageDailyMinutes = 60, daysActive = 7,
              trend = ''stable'', apps = [\<lparr>name = ''app'', minutes = 420\<rparr>]\<rparr>
   \<and> calculateRiskScore (Some weekOf60) (Some [])
       = Inr \<lparr>score = 43, category = ''Moderate'', level = ''moderate''\<rparr>"
  using week_of_sixty_minutes [OF weekOf60_hyps, of "Some []"] weekOf60_hyps
  by (simp add: list_all_iff)


section \<open>Clamped scores\<close>

lemma Math_round_Ints: "Math_round x \<in> \<int>"
  by (simp add: Math_round_def)

lemma clamp_round_range:
  "max 0 (min 100 (Math_round x)) \<in> \<int> \<and> 0 \<le> max 0 (min 100 (Math_round x))
     \<and> max 0 (min 100 (Math_round x)) \<le> 100"
  by (simp add: Math_round_Ints max_def min_def)

lemma score_categorize: "score (categorize s) = s"
  by (simp add: categorize_def)

lemma risk_score_range:
  "calculateRiskScore w m = Inr r \<Longrightarrow> score r \<in> \<int> \<and> 0 \<le> score r \<and> score r \<le> 100"
  using clamp_round_range
  by (auto simp add: calculateRiskScore_def score_categorize Let_def
      split: option.splits list.splits sum.splits)

text \<open>With valid dates only, the grouping loop does not raise.\<close>

lemma groupByDate_returns:
  "list_all (\<lambda>l. date l \<noteq> InvalidDate) logs \<Longrightarrow> \<exists>dm. groupByDate acc logs = Inr dm"
proof (induction logs arbitrary: acc)
  case Nil
  then show ?case by simp
next
  case (Cons l logs)
  then obtain t where "date l = Date t"
    by (cases "date l") auto
  with Cons show ?case
    by (simp add: Let_def)
qed

lemma risk_score_returns:
  assumes "list_all (\<lambda>l. date l \<noteq> InvalidDate) wl"
  shows "\<exists>r. calculateRiskScore (Some wl) m = Inr r"
proof -
  obtain dm where dm: "groupByDate [] wl = Inr dm"
    using groupByDate_returns [OF assms] by blast
  then show ?thesis
    by (cases wl) (simp_all add: calculateRiskScore_def calculateWeeklyStats_def Let_def)
qed

lemma honesty_range:
  "calculateDigitalHonestyScore es \<in> \<int> \<and> 0 \<le> calculateDigitalHonestyScore es
     \<and> calculateDigitalHonestyScore es \<le> 100"
  using clamp_round_range
  by (simp add: calculateDigitalHonestyScore_def split: option.splits)

lemma factorDailyAvg_Ints: "fst p \<in> \<int> \<Longrightarrow> fst (factorDailyAvg v p) \<in> \<int>"
  by (cases p) (simp add: factorDailyAvg_def)

lemma factorLateNight_Ints: "fst p \<in> \<int> \<Longrightarrow> fst (factorLateNight v p) \<in> \<int>"
  by (cases p) (simp add: factorLateNight_def)

lemma factorIntentDrift_Ints: "fst p \<in> \<int> \<Longrightarrow> fst (factorIntentDrift v p) \<in> \<int>"
  by (cases p) (simp add: factorIntentDrift_def)

lemma factorRiskTrend_Ints: "fst p \<in> \<int> \<Longrightarrow> fst (factorRiskTrend v p) \<in> \<int>"
  by (cases p) (simp add: factorRiskTrend_def)

lemma factorHonesty_Ints: "fst p \<in> \<int> \<Longrightarrow> fst (factorHonesty v p) \<in> \<int>"
  by (cases p) (simp add: factorHonesty_def)

lemma regretScore_eq:
  "regretScore (analyzeRegretPatterns d) = min 100 (max 0 (fst (regretFactors d)))"
  by (simp add: analyzeRegretPatterns_def regretFactors_def Let_def split: prod.splits)

lemma regret_range:
  "regretScore (analyzeRegretPatterns d) \<in> \<int> \<and> 0 \<le> regretScore (analyzeRegretPatterns d)
     \<and> regretScore (analyzeRegretPatterns d) \<le> 100"
proof -
  have "fst (regretFactors d) \<in> \<int>"
    unfolding regretFactors_def
    by (intro factorHonesty_Ints factorRiskTrend_Ints factorIntentDrift_Ints
        factorLateNight_Ints factorDailyAvg_Ints) simp
  then have "min 100 (max 0 (fst (regretFactors d))) \<in> \<int>"
    by (simp add: min_def max_def)
  then show ?thesis
    by (simp add: regretScore_eq)
qed

text \<open>
  C1. Whenever \<open>calculateRiskScore\<close> returns, its \<open>score\<close> is an integer between 0 and 100,
  and it does return on every list of logs with valid dates; the value of
  \<open>calculateDigitalHonestyScore\<close> and the \<open>regretScore\<close> of \<open>analyzeRegretPatterns\<close> are
  integers between 0 and 100 on every input.
\<close>

theorem scores_clamped:
  "(\<forall>r. calculateRiskScore w m = Inr r \<longrightarrow> score r \<in> \<int> \<and> 0 \<le> score r \<and> score r \<le> 100)
   \<and> (list_all (\<lambda>l. date l \<noteq> InvalidDate) wl \<longrightarrow> (\<exists>r. calculateRiskScore (Some wl) m = Inr r))
   \<and> (calculateDigitalHonestyScore es \<in> \<int> \<and> 0 \<le> calculateDigitalHonestyScore es
        \<and> calculateDigitalHonestyScore es \<le> 100)
   \<and> (regretScore (analyzeRegretPatterns d) \<in> \<int> \<and> 0 \<le> regretScore (analyzeRegretPatterns d)
        \<and> regretScore (analyzeRegretPatterns d) \<le> 100)"
  using risk_score_range [of w m] risk_score_returns [of wl m] honesty_range [of es]
    regret_range [of d]
  by blast

theorem scores_clamped_witness:
  "calculateRiskScore (Some weekOf60) None
     = Inr \<lparr>score = 43, category = ''Moderate'', level = ''moderate''\<rparr>
   \<and> (43 :: real) \<in> \<int> \<and> (0 :: real) \<le> 43 \<and> (43 :: real) \<le> 100
   \<and> list_all (\<lambda>l. date l \<noteq> InvalidDate) weekOf60
   \<and> (\<exists>r. calculateRiskScore (Some weekOf60) None = Inr r)"
proof -
  have ev: "calculateRiskScore (Some weekOf60) None
              = Inr \<lparr>score = 43, category = ''Moderate'', level = ''moderate''\<rparr>"
    by (rule week_of_sixty(2) [OF weekOf60_hyps])
  have valid: "list_all (\<lambda>l. date l \<noteq> InvalidDate) weekOf60"
    by (simp add: weekOf60_def dayLog_def)
  show ?thesis
    using ev valid
      scores_clamped [of "Some weekOf60" None weekOf60 None quietData]
    by simp
qed

text \<open>
  C3. For an absent or empty weekly record set, \<open>calculateRiskScore\<close> returns (raising
  nothing) exactly the score 0 with category Low and level low, whatever the monthly record
  set is.
\<close>

theorem risk_score_empty_weekly:
  "calculateRiskScore None monthlyLogs
     = Inr \<lparr>score = 0, category = ''Low'', level = ''low''\<rparr>
   \<and> calculateRiskScore (Some []) monthlyLogs
     = Inr \<lparr>score = 0, category = ''Low'', level = ''low''\<rparr>"
  by (simp add: calculateRiskScore_def)

text \<open>
  C9. The result of \<open>calculateRiskScore\<close>, a score or a raised error, is the same for any
  two monthly record sets.
\<close>

theorem risk_score_ignores_monthly:
  "calculateRiskScore w m1 = calculateRiskScore w m2"
  by (simp add: calculateRiskScore_def)


section \<open>Dominant regret type\<close>

lemma regretTypes_eq: "regretTypes (analyzeRegretPatterns d) = snd (regretFactors d)"
  by (simp add: analyzeRegretPatterns_def regretFactors_def Let_def split: prod.splits)

lemma dominantType_eq:
  "dominantType (analyzeRegretPatterns d) = reduceDominant (snd (regretFactors d)) regretTypeKeys"
  by (simp add: analyzeRegretPatterns_def regretFactors_def Let_def split: prod.splits)

lemma reduceDominant_keys:
  "reduceDominant t regretTypeKeys =
     (if max (attentionDrain t) (burnout t) \<le> habitualScrolling t then ''habitualScrolling''
      else if attentionDrain t \<le> burnout t then ''burnout''
      else ''attentionDrain'')"
  by (simp add: reduceDominant_def regretTypeKeys_def typeValue_def)

text \<open>
  C2, as the code has it. The dominant type is an accumulator of greatest value, and among
  accumulators that tie for the greatest value the one declared last wins:
  \<open>habitualScrolling\<close> before \<open>burnout\<close> before \<open>attentionDrain\<close>.
\<close>

theorem dominant_type_last_maximum:
  "dominantType (analyzeRegretPatterns d) =
     (let t = regretTypes (analyzeRegretPatterns d)
      in if max (attentionDrain t) (burnout t) \<le> habitualScrolling t then ''habitualScrolling''
         else if attentionDrain t \<le> burnout t then ''burnout''
         else ''attentionDrain'')
   \<and> typeValue (regretTypes (analyzeRegretPatterns d)) (dominantType (analyzeRegretPatterns d))
       = Max {attentionDrain (regretTypes (analyzeRegretPatterns d)),
              burnout (regretTypes (analyzeRegretPatterns d)),
              habitualScrolling (regretTypes (analyzeRegretPatterns d))}"
  by (simp add: dominantType_eq regretTypes_eq reduceDominant_keys typeValue_def Let_def max_def)

text \<open>
  On the all-zero input the three accumulators are equal, and the dominant type is
  \<open>habitualScrolling\<close>, not \<open>attentionDrain\<close>.
\<close>

theorem dominant_type_all_zero:
  "attentionDrain (regretTypes (analyzeRegretPatterns quietData)) = 0
   \<and> burnout (regretTypes (analyzeRegretPatterns quietData)) = 0
   \<and> habitualScrolling (regretTypes (analyzeRegretPatterns quietData)) = 0
   \<and> dominantType (analyzeRegretPatterns quietData) = ''habitualScrolling''
   \<and> dominantType (analyzeRegretPatterns quietData) \<noteq> ''attentionDrain''"
proof -
  have "(0::real) < fl 0.3" "(0::real) < fl 0.15" "(0::real) < fl 0.6" "(0::real) < fl 0.4"
    "(0::real) < fl 0.2"
    by (intro fl_pos; simp)+
  then have "regretFactors quietData
               = (0, \<lparr>attentionDrain = 0, burnout = 0, habitualScrolling = 0\<rparr>)"
    by (simp add: regretFactors_def quietData_def factorDailyAvg_def factorLateNight_def
        factorIntentDrift_def factorRiskTrend_def factorHonesty_def)
  then show ?thesis
    by (simp add: dominantType_eq regretTypes_eq reduceDominant_keys)
qed


section \<open>The weekly trend\<close>

lemma Map_get_map_of: "Map_get m k = map_of m k"
  by (induction m) auto

lemma Map_get_Map_set:
  "Map_get (Map_set m k v) k' = (if k' = k then Some v else Map_get m k')"
  by (induction m k v rule: Map_set.induct) auto

text \<open>
  Each entry of the grouped map holds the sum of the minutes logged on its day, added up
  on doubles in the order of the logs.
\<close>

lemma groupByDate_sums:
  "groupByDate acc logs = Inr dm \<Longrightarrow>
     Map_get dm k =
       (if k \<in> fst ` set acc \<or> Inr k \<in> (\<lambda>l. toISODate (date l)) ` set logs
        then Some (fold (\<lambda>b a. fadd a b)
                     (map minutesSpent (filter (\<lambda>l. toISODate (date l) = Inr k) logs))
                     (case Map_get acc k of None \<Rightarrow> 0 | Some v \<Rightarrow> v))
        else None)"
proof (induction logs arbitrary: acc)
  case Nil
  then show ?case
    by (auto simp add: Map_get_map_of map_of_eq_None_iff split: option.splits)
next
  case (Cons l logs)
  from Cons.prems obtain d where d: "toISODate (date l) = Inr d"
    by (auto split: sum.splits)
  define v where
    "v = fadd (case Map_get acc d of None \<Rightarrow> 0 | Some v \<Rightarrow> v) (minutesSpent l)"
  have step: "groupByDate (Map_set acc d v) logs = Inr dm"
    using Cons.prems d by (simp add: Let_def v_def)
  have none: "k \<notin> fst ` set acc \<Longrightarrow> Map_get acc k = None" for k
    by (simp add: Map_get_fresh)
  show ?case
    unfolding Cons.IH [OF step]
    using d none [of k]
    by (auto simp add: keys_Map_set Map_get_Map_set v_def split: option.splits)
qed

lemma trend_cases:
  fixes totals :: "real list"
  assumes nonneg: "\<forall>v \<in> set totals. 0 \<le> v"
    and n: "n = length totals"
    and f: "f = fdiv (reduce_sum (take (n div 2) totals)) (real (n div 2))"
    and s: "s = fdiv (reduce_sum (drop (n div 2) totals)) (real (n - n div 2))"
  shows "(computeTrend totals \<noteq> ''stable'' \<longrightarrow> 4 \<le> n)
       \<and> (computeTrend totals = ''increasing'' \<longleftrightarrow> 4 \<le> n \<and> s > fmul f (fl 1.1))
       \<and> (computeTrend totals = ''decreasing'' \<longleftrightarrow> 4 \<le> n \<and> s < fmul f (fl 0.9))
       \<and> (computeTrend totals = ''stable'' \<longleftrightarrow>
             \<not> (4 \<le> n \<and> s > fmul f (fl 1.1)) \<and> \<not> (4 \<le> n \<and> s < fmul f (fl 0.9)))"
proof -
  have ct: "computeTrend totals =
      (if 4 \<le> n then
         if s > fmul f (fl 1.1) then ''increasing''
         else if s < fmul f (fl 0.9) then ''decreasing'' else ''stable''
       else ''stable'')"
    unfolding n f s computeTrend_def
    by (simp only: Let_def slice_def slice_from_def diff_zero drop_0)
  have "0 \<le> reduce_sum (take (n div 2) totals)"
    using nonneg by (intro reduce_sum_nonneg) (auto dest: in_set_takeD)
  then have f0: "0 \<le> f"
    by (simp add: f fdiv_def fl_nonneg)
  have "f * fl 0.9 \<le> f * fl 1.1"
    using f0 fl_literal_bounds by (intro mult_left_mono) simp_all
  moreover have "0 \<le> f * fl 0.9"
    using f0 fl_literal_bounds(3) by simp
  ultimately have "fmul f (fl 0.9) \<le> fmul f (fl 1.1)"
    unfolding fmul_def by (intro fl_mono_nonneg)
  then have excl: "\<not> (s > fmul f (fl 1.1) \<and> s < fmul f (fl 0.9))"
    by simp
  show ?thesis
    unfolding ct using excl by auto
qed

lemma weekly_trend_eq:
  assumes "groupByDate [] logs = Inr dm"
  shows "\<exists>ws. calculateWeeklyStats (Some logs) = Inr ws \<and> trend ws = computeTrend (map snd dm)"
proof (cases "logs = []")
  case True
  with assms show ?thesis
    by (auto simp add: calculateWeeklyStats_def computeTrend_def)
next
  case False
  with assms show ?thesis
    by (simp add: calculateWeeklyStats_nonempty)
qed

lemma groupByDate_day_count:
  assumes dm: "groupByDate [] logs = Inr dm"
    and days: "map (\<lambda>l. toISODate (date l)) logs = map Inr days"
  shows "length dm = card (set days)"
proof -
  have "distinct (map fst dm)"
    using groupByDate_distinct [OF dm] by simp
  then have "card (set (map fst dm)) = length (map fst dm)"
    by (rule distinct_card)
  moreover have "set (map fst dm) = set days"
    using groupByDate_keys [OF dm days] by simp
  ultimately show ?thesis
    by simp
qed

lemma groupByDate_day_total:
  assumes dm: "groupByDate [] logs = Inr dm" and mem: "(d, v) \<in> set dm"
  shows "v = reduce_sum (map minutesSpent (filter (\<lambda>l. toISODate (date l) = Inr d) logs))"
proof -
  have "distinct (map fst dm)"
    using groupByDate_distinct [OF dm] by simp
  with mem have "Map_get dm d = Some v"
    by (simp add: Map_get_map_of)
  then show ?thesis
    unfolding groupByDate_sums [OF dm] by (simp add: reduce_sum_def split: if_splits)
qed

lemma weekly_trend_general:
  assumes days: "map (\<lambda>l. toISODate (date l)) logs = map Inr days"
    and nonneg: "\<forall>l \<in> set logs. 0 \<le> minutesSpent l"
  shows "\<exists>dateMap ws.
        groupByDate [] logs = Inr dateMap \<and> calculateWeeklyStats (Some logs) = Inr ws
        \<and> length dateMap = card (set days)
        \<and> (\<forall>(d, v) \<in> set dateMap.
              v = reduce_sum (map minutesSpent (filter (\<lambda>l. toISODate (date l) = Inr d) logs)))
        \<and> (let totals = map snd dateMap;
                n = length totals;
                midpoint = n div 2;
                firstMean = fdiv (reduce_sum (take midpoint totals)) (real midpoint);
                secondMean = fdiv (reduce_sum (drop midpoint totals)) (real (n - midpoint))
            in (trend ws \<noteq> ''stable'' \<longrightarrow> 4 \<le> n)
             \<and> (trend ws = ''increasing'' \<longleftrightarrow> 4 \<le> n \<and> secondMean > fmul firstMean (fl 1.1))
             \<and> (trend ws = ''decreasing'' \<longleftrightarrow> 4 \<le> n \<and> secondMean < fmul firstMean (fl 0.9))
             \<and> (trend ws = ''stable'' \<longleftrightarrow>
                   \<not> (4 \<le> n \<and> secondMean > fmul firstMean (fl 1.1))
                   \<and> \<not> (4 \<le> n \<and> secondMean < fmul firstMean (fl 0.9))))"
proof -
  obtain dm where dm: "groupByDate [] logs = Inr dm"
    using groupByDate_days_returns [OF days] by blast
  obtain ws where ws: "calculateWeeklyStats (Some logs) = Inr ws"
    and tr: "trend ws = computeTrend (map snd dm)"
    using weekly_trend_eq [OF dm] by blast
  have "\<forall>v \<in> snd ` set dm. 0 \<le> v"
    using groupByDate_nonneg [OF dm nonneg] by simp
  then have pos: "\<forall>v \<in> set (map snd dm). 0 \<le> v"
    by simp
  have sums: "\<forall>(d, v) \<in> set dm.
      v = reduce_sum (map minutesSpent (filter (\<lambda>l. toISODate (date l) = Inr d) logs))"
    using groupByDate_day_total [OF dm] by blast
  define n where "n = length (map snd dm)"
  define f where "f = fdiv (reduce_sum (take (n div 2) (map snd dm))) (real (n div 2))"
  define s where "s = fdiv (reduce_sum (drop (n div 2) (map snd dm))) (real (n - n div 2))"
  have cases: "(trend ws \<noteq> ''stable'' \<longrightarrow> 4 \<le> n)
       \<and> (trend ws = ''increasing'' \<longleftrightarrow> 4 \<le> n \<and> s > fmul f (fl 1.1))
       \<and> (trend ws = ''decreasing'' \<longleftrightarrow> 4 \<le> n \<and> s < fmul f (fl 0.9))
       \<and> (trend ws = ''stable'' \<longleftrightarrow>
             \<not> (4 \<le> n \<and> s > fmul f (fl 1.1)) \<and> \<not> (4 \<le> n \<and> s < fmul f (fl 0.9)))"
    unfolding tr by (rule trend_cases [OF pos n_def f_def s_def])
  show ?thesis
    apply (rule exI [of _ dm])
    apply (rule exI [of _ ws])
    apply (intro conjI)
        apply (rule dm)
       apply (rule ws)
      apply (rule groupByDate_day_count [OF dm days])
     apply (rule sums)
    unfolding Let_def
    apply (rule cases [unfolded n_def f_def s_def])
    done
qed


lemma fmul_literal_range:
  assumes "0 \<le> f"
  shows "fmul f (fl 1.1) \<le> fl (f * 2)" "fl (f / 2) \<le> fmul f (fl 0.9)"
proof -
  have a: "f * fl 1.1 \<le> f * 2"
    using assms fl_literal_bounds(2) by (intro mult_left_mono) simp_all
  have "f * (1 / 2) \<le> f * fl 0.9"
    using assms fl_literal_bounds(3) by (intro mult_left_mono) simp_all
  then have b: "f / 2 \<le> f * fl 0.9"
    by simp
  have c: "0 \<le> f * fl 1.1" "0 \<le> f / 2"
    using assms fl_literal_bounds(1) by simp_all
  show "fmul f (fl 1.1) \<le> fl (f * 2)"
    unfolding fmul_def by (rule fl_mono_nonneg [OF c(1) a])
  show "fl (f / 2) \<le> fmul f (fl 0.9)"
    unfolding fmul_def by (rule fl_mono_nonneg [OF c(2) b])
qed

lemma fourDays_ne: "fourDays a b c d \<noteq> []"
  by (simp add: fourDays_def)

lemma fourDays_groups:
  "groupByDate [] (fourDays a b c d)
     = Inr [(0, fadd 0 a), (1, fadd 0 b), (2, fadd 0 c), (3, fadd 0 d)]"
  by (simp add: fourDays_def dayLog_def msPerDay_def)

lemma fourDays_apps:
  "groupByApp [] (fourDays a b c d) = [(''app'', fadd (fadd (fadd (fadd 0 a) b) c) d)]"
  by (simp add: fourDays_def dayLog_def)

lemma trend_of_four:
  "computeTrend [a, b, c, d] =
     (if fdiv (fadd (fadd 0 c) d) 2 > fmul (fdiv (fadd (fadd 0 a) b) 2) (fl 1.1)
      then ''increasing''
      else if fdiv (fadd (fadd 0 c) d) 2 < fmul (fdiv (fadd (fadd 0 a) b) 2) (fl 0.9)
      then ''decreasing'' else ''stable'')"
  by (simp add: computeTrend_def slice_def slice_from_def reduce_sum_def Let_def)

lemma fourDays_stats:
  "calculateWeeklyStats (Some (fourDays 10 10 50 50))
     = Inr \<lparr>totalMinutes = 120, averageDailyMinutes = 30, daysActive = 4,
            trend = ''increasing'', apps = [\<lparr>name = ''app'', minutes = 120\<rparr>]\<rparr>"
  "calculateWeeklyStats (Some (fourDays 50 50 10 10))
     = Inr \<lparr>totalMinutes = 120, averageDailyMinutes = 30, daysActive = 4,
            trend = ''decreasing'', apps = [\<lparr>name = ''app'', minutes = 120\<rparr>]\<rparr>"
  "calculateWeeklyStats (Some (fourDays 30 30 30 30))
     = Inr \<lparr>totalMinutes = 120, averageDailyMinutes = 30, daysActive = 4,
            trend = ''stable'', apps = [\<lparr>name = ''app'', minutes = 120\<rparr>]\<rparr>"
proof -
  have up: "fmul 10 (fl 1.1) < (50::real)"
    using fmul_literal_range(1) [of 10] by simp
  have down: "\<not> (10::real) > fmul 50 (fl 1.1)" "(10::real) < fmul 50 (fl 0.9)"
    using fmul_literal_bounds(1) [of 50] fmul_literal_range(2) [of 50] by simp_all
  have same: "\<not> (30::real) > fmul 30 (fl 1.1)" "\<not> (30::real) < fmul 30 (fl 0.9)"
    using fmul_literal_bounds [of 30] by simp_all
  have t1: "computeTrend [10, 10, 50, 50] = ''increasing''"
    using up by (simp add: trend_of_four fadd_def fdiv_def)
  have t2: "computeTrend [50, 50, 10, 10] = ''decreasing''"
    using down by (simp add: trend_of_four fadd_def fdiv_def)
  have t3: "computeTrend [30, 30, 30, 30] = ''stable''"
    using same by (simp add: trend_of_four fadd_def fdiv_def)
  show "calculateWeeklyStats (Some (fourDays 10 10 50 50))
     = Inr \<lparr>totalMinutes = 120, averageDailyMinutes = 30, daysActive = 4,
            trend = ''increasing'', apps = [\<lparr>name = ''app'', minutes = 120\<rparr>]\<rparr>"
    using t1
    by (simp add: calculateWeeklyStats_nonempty [OF fourDays_ne] fourDays_groups fourDays_apps
        reduce_sum_def fadd_def fmul_def fdiv_def Math_round_numeral sortedApps_def)
  show "calculateWeeklyStats (Some (fourDays 50 50 10 10))
     = Inr \<lparr>totalMinutes = 120, averageDailyMinutes = 30, daysActive = 4,
            trend = ''decreasing'', apps = [\<lparr>name = ''app'', minutes = 120\<rparr>]\<rparr>"
    using t2
    by (simp add: calculateWeeklyStats_nonempty [OF fourDays_ne] fourDays_groups fourDays_apps
        reduce_sum_def fadd_def fmul_def fdiv_def Math_round_numeral sortedApps_def)
  show "calculateWeeklyStats (Some (fourDays 30 30 30 30))
     = Inr \<lparr>totalMinutes = 120, averageDailyMinutes = 30, daysActive = 4,
            trend = ''stable'', apps = [\<lparr>name = ''app'', minutes = 120\<rparr>]\<rparr>"
    using t3
    by (simp add: calculateWeeklyStats_nonempty [OF fourDays_ne] fourDays_groups fourDays_apps
        reduce_sum_def fadd_def fmul_def fdiv_def Math_round_numeral sortedApps_def)
qed

text \<open>
  C6, as the code has it. For logs with valid dates and non-negative minutes, the grouped
  map has one entry per distinct day, holding the sum of that day's minutes; with \<open>n\<close>
  entries split at \<open>n div 2\<close>, and with the sums, the two means and the products by 1.1 and
  0.9 computed on doubles, the trend is increasing exactly when \<open>n \<ge> 4\<close> and the mean of the
  second half exceeds the product of the mean of the first half by 1.1, decreasing exactly
  when \<open>n \<ge> 4\<close> and it is below the product by 0.9, and stable otherwise. Daily totals 10, 10,
  50, 50 give increasing; 50, 50, 10, 10 give decreasing; 30, 30, 30, 30 give stable.
\<close>

theorem weekly_trend:
  "(map (\<lambda>l. toISODate (date l)) logs = map Inr days \<and> (\<forall>l \<in> set logs. 0 \<le> minutesSpent l) \<longrightarrow>
     (\<exists>dateMap ws.
        groupByDate [] logs = Inr dateMap \<and> calculateWeeklyStats (Some logs) = Inr ws
        \<and> length dateMap = card (set days)
        \<and> (\<forall>(d, v) \<in> set dateMap.
              v = reduce_sum (map minutesSpent (filter (\<lambda>l. toISODate (date l) = Inr d) logs)))
        \<and> (let totals = map snd dateMap;
                n = length totals;
                midpoint = n div 2;
                firstMean = fdiv (reduce_sum (take midpoint totals)) (real midpoint);
                secondMean = fdiv (reduce_sum (drop midpoint totals)) (real (n - midpoint))
            in (trend ws \<noteq> ''stable'' \<longrightarrow> 4 \<le> n)
             \<and> (trend ws = ''increasing'' \<longleftrightarrow> 4 \<le> n \<and> secondMean > fmul firstMean (fl 1.1))
             \<and> (trend ws = ''decreasing'' \<longleftrightarrow> 4 \<le> n \<and> secondMean < fmul firstMean (fl 0.9))
             \<and> (trend ws = ''stable'' \<longleftrightarrow>
                   \<not> (4 \<le> n \<and> secondMean > fmul firstMean (fl 1.1))
                   \<and> \<not> (4 \<le> n \<and> secondMean < fmul firstMean (fl 0.9))))))
   \<and> calculateWeeklyStats (Some (fourDays 10 10 50 50))
       = Inr \<lparr>totalMinutes = 120, averageDailyMinutes = 30, daysActive = 4,
              trend = ''increasing'', apps = [\<lparr>name = ''app'', minutes = 120\<rparr>]\<rparr>
   \<and> calculateWeeklyStats (Some (fourDays 50 50 10 10))
       = Inr \<lparr>totalMinutes = 120, averageDailyMinutes = 30, daysActive = 4,
              trend = ''decreasing'', apps = [\<lparr>name = ''app'', minutes = 120\<rparr>]\<rparr>
   \<and> calculateWeeklyStats (Some (fourDays 30 30 30 30))
       = Inr \<lparr>totalMinutes = 120, averageDailyMinutes = 30, daysActive = 4,
              trend = ''stable'', apps = [\<lparr>name = ''app'', minutes = 120\<rparr>]\<rparr>"
proof (intro conjI impI)
  assume "map (\<lambda>l. toISODate (date l)) logs = map Inr days
            \<and> (\<forall>l \<in> set logs. 0 \<le> minutesSpent l)"
  then have days: "map (\<lambda>l. toISODate (date l)) logs = map Inr days"
    and nonneg: "\<forall>l \<in> set logs. 0 \<le> minutesSpent l"
    by simp_all
  show "\<exists>dateMap ws.
        groupByDate [] logs = Inr dateMap \<and> calculateWeeklyStats (Some logs) = Inr ws
        \<and> length dateMap = card (set days)
        \<and> (\<forall>(d, v) \<in> set dateMap.
              v = reduce_sum (map minutesSpent (filter (\<lambda>l. toISODate (date l) = Inr d) logs)))
        \<and> (let totals = map snd dateMap;
                n = length totals;
                midpoint = n div 2;
                firstMean = fdiv (reduce_sum (take midpoint totals)) (real midpoint);
                secondMean = fdiv (reduce_sum (drop midpoint totals)) (real (n - midpoint))
            in (trend ws \<noteq> ''stable'' \<longrightarrow> 4 \<le> n)
             \<and> (trend ws = ''increasing'' \<longleftrightarrow> 4 \<le> n \<and> secondMean > fmul firstMean (fl 1.1))
             \<and> (trend ws = ''decreasing'' \<longleftrightarrow> 4 \<le> n \<and> secondMean < fmul firstMean (fl 0.9))
             \<and> (trend ws = ''stable'' \<longleftrightarrow>
                   \<not> (4 \<le> n \<and> secondMean > fmul firstMean (fl 1.1))
                   \<and> \<not> (4 \<le> n \<and> secondMean < fmul firstMean (fl 0.9))))"
    by (rule weekly_trend_general [OF days nonneg])
next
  show "calculateWeeklyStats (Some (fourDays 10 10 50 50))
       = Inr \<lparr>totalMinutes = 120, averageDailyMinutes = 30, daysActive = 4,
              trend = ''increasing'', apps = [\<lparr>name = ''app'', minutes = 120\<rparr>]\<rparr>"
    by (rule fourDays_stats)
next
  show "calculateWeeklyStats (Some (fourDays 50 50 10 10))
       = Inr \<lparr>totalMinutes = 120, averageDailyMinutes = 30, daysActive = 4,
              trend = ''decreasing'', apps = [\<lparr>name = ''app'', minutes = 120\<rparr>]\<rparr>"
    by (rule fourDays_stats)
next
  show "calculateWeeklyStats (Some (fourDays 30 30 30 30))
       = Inr \<lparr>totalMinutes = 120, averageDailyMinutes = 30, daysActive = 4,
              trend = ''stable'', apps = [\<lparr>name = ''app'', minutes = 120\<rparr>]\<rparr>"
    by (rule fourDays_stats)
qed

theorem weekly_trend_witness:
  "map (\<lambda>l. toISODate (date l)) (fourDays 10 10 50 50) = map Inr [0, 1, 2, 3]
   \<and> list_all (\<lambda>l. 0 \<le> minutesSpent l) (fourDays 10 10 50 50)
   \<and> groupByDate [] (fourDays 10 10 50 50) = Inr [(0, 10), (1, 10), (2, 50), (3, 50)]
   \<and> (\<exists>ws. calculateWeeklyStats (Some (fourDays 10 10 50 50)) = Inr ws
          \<and> trend ws = ''increasing'')"
proof -
  have days: "map (\<lambda>l. toISODate (date l)) (fourDays 10 10 50 50) = map Inr [0, 1, 2, 3]"
    by (simp add: fourDays_def dayLog_def msPerDay_def)
  have nonneg: "\<forall>l \<in> set (fourDays 10 10 50 50). 0 \<le> minutesSpent l"
    by (simp add: fourDays_def dayLog_def)
  have dm: "groupByDate [] (fourDays 10 10 50 50) = Inr [(0, 10), (1, 10), (2, 50), (3, 50)]"
    by (simp add: fourDays_groups fadd_def)
  have up: "fmul 10 (fl 1.1) < (50::real)"
    using fmul_literal_range(1) [of 10] by simp
  note gen = weekly_trend [of "fourDays 10 10 50 50" "[0, 1, 2, 3]", THEN conjunct1, THEN mp,
      OF conjI [OF days nonneg]]
  have "\<exists>ws. calculateWeeklyStats (Some (fourDays 10 10 50 50)) = Inr ws
          \<and> trend ws = ''increasing''"
    using gen up unfolding dm by (auto simp add: Let_def reduce_sum_def fadd_def fdiv_def)
  then show ?thesis
    using days nonneg dm by (simp add: list_all_iff)
qed

lemma trend_of_six:
  "computeTrend [a, b, c, d, e, g] =
     (if fdiv (fadd (fadd (fadd 0 d) e) g) 3 > fmul (fdiv (fadd (fadd (fadd 0 a) b) c) 3) (fl 1.1)
      then ''increasing''
      else if fdiv (fadd (fadd (fadd 0 d) e) g) 3
                < fmul (fdiv (fadd (fadd (fadd 0 a) b) c) 3) (fl 0.9)
      then ''decreasing'' else ''stable'')"
  by (simp add: computeTrend_def slice_def slice_from_def reduce_sum_def Let_def)

lemma sixDays_trend: "computeTrend [20, 15, 15, 15, 15, 15] = ''decreasing''"
proof -
  have c: "\<not> (15::real) > fmul (fdiv 50 3) (fl 1.1)" "(15::real) < fmul (fdiv 50 3) (fl 0.9)"
    by code_simp+
  have f: "fadd (fadd (fadd 0 20) 15) 15 = 50" "fadd (fadd (fadd 0 15) 15) 15 = 45"
    "fdiv 45 3 = 15"
    by (simp_all add: fadd_def fdiv_def)
  show ?thesis
    unfolding trend_of_six f using c by simp
qed

text \<open>
  With the daily totals 20, 15, 15, 15, 15, 15 the code answers decreasing, although in
  exact arithmetic the mean 15 of the second half is not below 0.9 times the mean
  \<open>50 / 3\<close> of the first half.
\<close>

theorem weekly_trend_rounding:
  "map_sum id trend (calculateWeeklyStats (Some sixDays)) = Inr ''decreasing''
   \<and> \<not> ((15 + 15 + 15) / 3 < (20 + 15 + 15) / 3 * (0.9 :: real))"
proof -
  have ne: "sixDays \<noteq> []"
    by (simp add: sixDays_def)
  have dm: "groupByDate [] sixDays
              = Inr [(0, 20), (1, 15), (2, 15), (3, 15), (4, 15), (5, 15)]"
    by (simp add: sixDays_def dayLog_def msPerDay_def fadd_def)
  show ?thesis
    by (simp add: calculateWeeklyStats_nonempty [OF ne] dm sixDays_trend)
qed


section \<open>The honesty penalties\<close>

lemma parseMinutes_eq: "parseMinutes e = minutesSpent e"
  by (simp add: parseMinutes_def)

lemma gapLoop_closed:
  "gapLoop s i sc =
     sc - real_of_int (\<Sum>j\<leftarrow>[i..<length s].
            let g = daysDiff (date (s ! (j - 1))) (date (s ! j))
            in if g > 7 then min 30 ((g - 7) * 5) else 0)"
proof (induction "length s - i" arbitrary: i sc)
  case 0
  then show ?case
    by (subst gapLoop.simps) simp
next
  case (Suc k)
  then have lt: "i < length s" and k: "k = length s - Suc i"
    by simp_all
  have upt: "[i..<length s] = i # [Suc i..<length s]"
    using lt by (simp add: upt_conv_Cons)
  show ?case
    by (subst gapLoop.simps)
      (simp add: lt upt Let_def Suc.hyps(1) [OF k] maxGapDays_def)
qed

lemma unrealisticLoop_closed:
  "unrealisticLoop es sc = sc - 10 * real (length (filter (\<lambda>e. minutesSpent e > 960) es))"
  by (induction es arbitrary: sc) (simp_all add: maxRealisticMinutes_def parseMinutes_eq)

lemma recent_slice:
  assumes "3 \<le> i" "i < length s"
  shows "slice s (i - 3) i = [s ! (i - 3), s ! (i - 2), s ! (i - 1)]"
proof -
  obtain k where k: "i = k + 3"
    using assms(1) by (metis add.commute le_Suc_ex)
  have "take 3 (drop k s) = [s ! k, s ! (k + 1), s ! (k + 2)]"
    using assms(2) k
    by (simp add: numeral_3_eq_3 take_Suc_conv_app_nth)
  then show ?thesis
    by (simp add: slice_def k)
qed

text \<open>One iteration of each spike loop, and the exit.\<close>

lemma spikeLoopRecent_step:
  assumes "3 \<le> i" "i < length s"
  shows "spikeLoopRecent s i sc = spikeLoopRecent s (Suc i)
      (if recentMean s i > 0 \<and> minutesSpent (s ! i) > fmul (recentMean s i) 3
       then sc - 5 else sc)"
proof -
  have avg: "fdiv (fold (\<lambda>e sum. fadd sum (minutesSpent e)) (slice s (i - 3) i) 0)
               (real (length (slice s (i - 3) i))) = recentMean s i"
    unfolding recent_slice [OF assms] by (simp add: recentMean_def)
  show ?thesis
    by (subst spikeLoopRecent.simps)
      (simp only: assms(2) if_True Let_def parseMinutes_eq avg Suc_eq_plus1)
qed

lemma spikeLoopRecent_exit: "\<not> i < length s \<Longrightarrow> spikeLoopRecent s i sc = sc"
  by (subst spikeLoopRecent.simps) simp

lemma spikeLoopPrev_step:
  assumes "i < length s"
  shows "spikeLoopPrev s i sc = spikeLoopPrev s (Suc i)
      (if minutesSpent (s ! (i - 1)) > 0
          \<and> minutesSpent (s ! i) > fmul (minutesSpent (s ! (i - 1))) 5
       then sc - 5 else sc)"
  by (subst spikeLoopPrev.simps)
    (simp only: assms if_True Let_def parseMinutes_eq Suc_eq_plus1)

lemma spikeLoopPrev_exit: "\<not> i < length s \<Longrightarrow> spikeLoopPrev s i sc = sc"
  by (subst spikeLoopPrev.simps) simp

lemma spikeLoopRecent_closed:
  "3 \<le> i \<Longrightarrow> spikeLoopRecent s i sc =
     sc - 5 * real (length (filter (\<lambda>j. recentMean s j > 0
                                        \<and> minutesSpent (s ! j) > fmul (recentMean s j) 3)
                              [i..<length s]))"
proof (induction "length s - i" arbitrary: i sc)
  case 0
  then show ?case
    by (simp add: spikeLoopRecent_exit)
next
  case (Suc k)
  then have lt: "i < length s" and k: "k = length s - Suc i" and le: "3 \<le> Suc i"
    by simp_all
  have upt: "[i..<length s] = i # [Suc i..<length s]"
    using lt by (simp add: upt_conv_Cons)
  show ?case
    unfolding spikeLoopRecent_step [OF Suc.prems lt]
    by (simp add: upt Suc.hyps(1) [OF k le])
qed

lemma spikeLoopPrev_closed:
  "spikeLoopPrev s i sc =
     sc - 5 * real (length (filter (\<lambda>j. minutesSpent (s ! (j - 1)) > 0
                               \<and> minutesSpent (s ! j) > fmul (minutesSpent (s ! (j - 1))) 5)
                              [i..<length s]))"
proof (induction "length s - i" arbitrary: i sc)
  case 0
  then show ?case
    by (simp add: spikeLoopPrev_exit)
next
  case (Suc k)
  then have lt: "i < length s" and k: "k = length s - Suc i"
    by simp_all
  have upt: "[i..<length s] = i # [Suc i..<length s]"
    using lt by (simp add: upt_conv_Cons)
  show ?case
    unfolding spikeLoopPrev_step [OF lt]
    by (simp add: upt Suc.hyps(1) [OF k])
qed

lemma unrealisticCount_sort: "unrealisticCount (sort_key date es) = unrealisticCount es"
  by (simp add: unrealisticCount_def filter_sort)

lemma honestyPenalised_closed:
  "honestyPenalised es =
     spikePhase (sort_key date es)
       (100 - real_of_int (gapTotal (sort_key date es)) - 10 * real (unrealisticCount es))"
  using unrealisticCount_sort [of es]
  by (simp add: honestyPenalised_def Let_def gapLoop_closed unrealisticLoop_closed
      gapTotal_def unrealisticCount_def)

lemma honesty_closed:
  assumes len: "2 \<le> length es"
  shows "calculateDigitalHonestyScore (Some es) =
     max 0 (min 100 (Math_round (spikePhase (sort_key date es)
        (100 - real_of_int (gapTotal (sort_key date es)) - 10 * real (unrealisticCount es)))))"
proof -
  from len have no: "(length es = 0) = False" "(length es = 1) = False"
    by auto
  show ?thesis
    by (simp only: calculateDigitalHonestyScore_def option.case no if_False
        honestyPenalised_closed)
qed

text \<open>The spike phase on short lists, for the evaluation of examples.\<close>

lemma spikePhase_two:
  "spikePhase [a, b] sc =
     (if minutesSpent a > 0 \<and> minutesSpent b > fmul (minutesSpent a) 5 then sc - 5 else sc)"
  by (simp add: spikePhase_def spikeLoopPrev_step spikeLoopPrev_exit)

lemma spikePhase_three:
  "spikePhase [a, b, c] sc =
     (let sc1 = (if minutesSpent a > 0 \<and> minutesSpent b > fmul (minutesSpent a) 5
                 then sc - 5 else sc)
      in if minutesSpent b > 0 \<and> minutesSpent c > fmul (minutesSpent b) 5
         then sc1 - 5 else sc1)"
  by (simp add: spikePhase_def spikeLoopPrev_step spikeLoopPrev_exit Let_def)


lemma recentMean_nonpos:
  assumes "minutesSpent (s ! (i - 3)) \<le> 0" "minutesSpent (s ! (i - 2)) \<le> 0"
    "minutesSpent (s ! (i - 1)) \<le> 0"
  shows "recentMean s i \<le> 0"
proof -
  have a: "fadd 0 (minutesSpent (s ! (i - 3))) \<le> 0"
    using assms(1) by (simp add: fadd_def fl_nonpos)
  have b: "fadd (fadd 0 (minutesSpent (s ! (i - 3)))) (minutesSpent (s ! (i - 2))) \<le> 0"
    unfolding fadd_def [of "fadd 0 (minutesSpent (s ! (i - 3)))"]
    using a assms(2) by (intro fl_nonpos) simp
  have c: "fadd (fadd (fadd 0 (minutesSpent (s ! (i - 3)))) (minutesSpent (s ! (i - 2))))
             (minutesSpent (s ! (i - 1))) \<le> 0"
    unfolding fadd_def [of "fadd (fadd 0 (minutesSpent (s ! (i - 3)))) (minutesSpent (s ! (i - 2)))"]
    using b assms(3) by (intro fl_nonpos) simp
  show ?thesis
    unfolding recentMean_def fdiv_def
    using c by (intro fl_nonpos) (simp add: divide_nonpos_pos)
qed

lemma spikeLoopRecent_no_baseline:
  assumes "\<forall>i. 3 \<le> i \<and> i < length s \<longrightarrow> recentMean s i \<le> 0"
  shows "spikeLoopRecent s 3 sc = sc"
proof -
  have "filter (\<lambda>i. recentMean s i > 0 \<and> minutesSpent (s ! i) > fmul (recentMean s i) 3)
               [3..<length s] = []"
    using assms by (auto simp add: filter_empty_conv)
  then show ?thesis
    by (simp add: spikeLoopRecent_closed)
qed

lemma spikeLoopPrev_no_baseline:
  assumes "\<forall>i. 1 \<le> i \<and> i < length s \<longrightarrow> minutesSpent (s ! (i - 1)) \<le> 0"
  shows "spikeLoopPrev s 1 sc = sc"
proof -
  have "filter (\<lambda>i. minutesSpent (s ! (i - 1)) > 0
                          \<and> minutesSpent (s ! i) > fmul (minutesSpent (s ! (i - 1))) 5)
               [1..<length s] = []"
    using assms by (auto simp add: filter_empty_conv)
  then show ?thesis
    by (simp add: spikeLoopPrev_closed)
qed

lemma spikePhase_zero_baseline:
  assumes zero: "\<forall>i. i + 1 < length s \<longrightarrow> minutesSpent (s ! i) = 0"
  shows "spikePhase s sc = sc"
proof (cases "4 \<le> length s")
  case True
  have "recentMean s i \<le> 0" if "3 \<le> i" "i < length s" for i
  proof -
    have "i - 3 + 1 < length s" "i - 2 + 1 < length s" "i - 1 + 1 < length s"
      using that by simp_all
    then have "minutesSpent (s ! (i - 3)) = 0" "minutesSpent (s ! (i - 2)) = 0"
      "minutesSpent (s ! (i - 1)) = 0"
      using zero by blast+
    then show ?thesis
      by (intro recentMean_nonpos) simp_all
  qed
  then have "spikeLoopRecent s 3 sc = sc"
    by (intro spikeLoopRecent_no_baseline) simp
  then show ?thesis
    using True by (simp add: spikePhase_def)
next
  case False
  have "minutesSpent (s ! (i - 1)) \<le> 0" if "1 \<le> i" "i < length s" for i
  proof -
    have "i - 1 + 1 < length s"
      using that by simp
    then have "minutesSpent (s ! (i - 1)) = 0"
      using zero by blast
    then show ?thesis
      by simp
  qed
  then have "spikeLoopPrev s 1 sc = sc"
    by (intro spikeLoopPrev_no_baseline) simp
  then show ?thesis
    using False by (simp add: spikePhase_def)
qed

lemma unrealisticLoop_step:
  "unrealisticLoop (e # rest) sc =
     unrealisticLoop rest (if minutesSpent e > 960 then sc - 10 else sc)"
  by (simp add: maxRealisticMinutes_def parseMinutes_eq)

text \<open>The evaluation of the score from its parts.\<close>

lemma honesty_from_parts:
  assumes "2 \<le> length es" "sort_key date es = s" "gapTotal s = g" "unrealisticCount es = u"
    "spikePhase s (100 - real_of_int g - 10 * real u) = r"
    "max 0 (min 100 (Math_round r)) = v"
  shows "calculateDigitalHonestyScore (Some es) = v"
  unfolding honesty_closed [OF assms(1)] assms(2) assms(3) assms(4) assms(5) by (rule assms(6))

lemma sorted_days:
  "sort_key date [dayEntry 0 a, dayEntry 10 b, dayEntry 11 c]
     = [dayEntry 0 a, dayEntry 10 b, dayEntry 11 c]"
  "sort_key date [dayEntry 11 c, dayEntry 0 a, dayEntry 10 b]
     = [dayEntry 0 a, dayEntry 10 b, dayEntry 11 c]"
  "sort_key date [dayEntry 0 a, dayEntry 13 b, dayEntry 26 c]
     = [dayEntry 0 a, dayEntry 13 b, dayEntry 26 c]"
  "sort_key date [dayEntry 0 a, dayEntry 0 b] = [dayEntry 0 a, dayEntry 0 b]"
  "sort_key date [dayEntry 0 a, dayEntry 1 b] = [dayEntry 0 a, dayEntry 1 b]"
  "sort_key date [dayEntry 0 a, dayEntry 1 b, dayEntry 2 c, dayEntry 3 d]
     = [dayEntry 0 a, dayEntry 1 b, dayEntry 2 c, dayEntry 3 d]"
  "sort_key date [dayEntry 0 a, dayEntry 0 b, dayEntry 0 c, dayEntry 0 d, dayEntry 0 e]
     = [dayEntry 0 a, dayEntry 0 b, dayEntry 0 c, dayEntry 0 d, dayEntry 0 e]"
  by (simp_all add: dayEntry_def msPerDay_def)

lemma gap_of_days:
  "daysDiff (date (dayEntry d a)) (date (dayEntry d' b)) = d' - d"
proof -
  have "real_of_int (d' * msPerDay - d * msPerDay) / real_of_int msPerDay = real_of_int (d' - d)"
    by (simp add: msPerDay_def field_simps)
  moreover have "date (dayEntry d a) = d * msPerDay" "date (dayEntry d' b) = d' * msPerDay"
    by (simp_all add: dayEntry_def)
  ultimately show ?thesis
    unfolding daysDiff_def by (simp only: floor_of_int)
qed

lemma gapTotal_two: "gapTotal [a, b] =
    (let g = daysDiff (date a) (date b) in if g > 7 then min 30 ((g - 7) * 5) else 0)"
  by (simp add: gapTotal_def)

lemma gapTotal_three: "gapTotal [a, b, c] =
    (let g = daysDiff (date a) (date b) in if g > 7 then min 30 ((g - 7) * 5) else 0)
    + (let g = daysDiff (date b) (date c) in if g > 7 then min 30 ((g - 7) * 5) else 0)"
  by (simp add: gapTotal_def upt_rec_numeral)

lemma minutes_dayEntry [simp]: "minutesSpent (dayEntry d m) = m"
  by (simp add: dayEntry_def)

lemma recentMean_at:
  "recentMean (a # b # c # rest) 3
     = fdiv (fadd (fadd (fadd 0 (minutesSpent a)) (minutesSpent b)) (minutesSpent c)) 3"
  "recentMean (a # b # c # d # rest) 4
     = fdiv (fadd (fadd (fadd 0 (minutesSpent b)) (minutesSpent c)) (minutesSpent d)) 3"
  by (simp_all add: recentMean_def)

lemma spikePhase_four:
  "spikePhase [a, b, c, d] sc =
     (let m = fdiv (fadd (fadd (fadd 0 (minutesSpent a)) (minutesSpent b)) (minutesSpent c)) 3
      in if m > 0 \<and> minutesSpent d > fmul m 3 then sc - 5 else sc)"
proof -
  let ?s = "[a, b, c, d]"
  have "spikePhase ?s sc = spikeLoopRecent ?s 3 sc"
    by (simp add: spikePhase_def)
  also have "\<dots> = spikeLoopRecent ?s (Suc 3)
      (if recentMean ?s 3 > 0 \<and> minutesSpent (?s ! 3) > fmul (recentMean ?s 3) 3
       then sc - 5 else sc)"
    by (rule spikeLoopRecent_step) simp_all
  also have "\<dots> = (if recentMean ?s 3 > 0 \<and> minutesSpent (?s ! 3) > fmul (recentMean ?s 3) 3
       then sc - 5 else sc)"
    by (rule spikeLoopRecent_exit) simp
  finally show ?thesis
    unfolding recentMean_at Let_def by simp
qed

lemma spikePhase_five:
  "spikePhase [a, b, c, d, e] sc =
     (let m = fdiv (fadd (fadd (fadd 0 (minutesSpent a)) (minutesSpent b)) (minutesSpent c)) 3;
          n = fdiv (fadd (fadd (fadd 0 (minutesSpent b)) (minutesSpent c)) (minutesSpent d)) 3;
          sc1 = (if m > 0 \<and> minutesSpent d > fmul m 3 then sc - 5 else sc)
      in if n > 0 \<and> minutesSpent e > fmul n 3 then sc1 - 5 else sc1)"
proof -
  let ?s = "[a, b, c, d, e]"
  let ?sc1 = "if recentMean ?s 3 > 0 \<and> minutesSpent (?s ! 3) > fmul (recentMean ?s 3) 3
       then sc - 5 else sc"
  let ?sc2 = "if recentMean ?s 4 > 0 \<and> minutesSpent (?s ! 4) > fmul (recentMean ?s 4) 3
       then ?sc1 - 5 else ?sc1"
  have "spikePhase ?s sc = spikeLoopRecent ?s 3 sc"
    by (simp add: spikePhase_def)
  also have "\<dots> = spikeLoopRecent ?s (Suc 3) ?sc1"
    by (rule spikeLoopRecent_step) simp_all
  also have "\<dots> = spikeLoopRecent ?s 4 ?sc1"
    by simp
  also have "\<dots> = spikeLoopRecent ?s (Suc 4) ?sc2"
    by (rule spikeLoopRecent_step) simp_all
  also have "\<dots> = ?sc2"
    by (rule spikeLoopRecent_exit) simp
  finally show ?thesis
    unfolding recentMean_at Let_def by simp
qed

lemma honesty_examples:
  "calculateDigitalHonestyScore (Some [dayEntry 0 100, dayEntry 10 100, dayEntry 11 100]) = 85"
  "calculateDigitalHonestyScore (Some [dayEntry 11 100, dayEntry 0 100, dayEntry 10 100]) = 85"
  "calculateDigitalHonestyScore (Some [dayEntry 0 100, dayEntry 13 100, dayEntry 26 100]) = 40"
  by (rule honesty_from_parts [OF _ sorted_days(1) refl refl refl],
      simp, simp add: gapTotal_three gap_of_days unrealisticCount_def spikePhase_three fmul_def
        Math_round_def)
    (rule honesty_from_parts [OF _ sorted_days(2) refl refl refl],
      simp, simp add: gapTotal_three gap_of_days unrealisticCount_def spikePhase_three fmul_def
        Math_round_def,
     rule honesty_from_parts [OF _ sorted_days(3) refl refl refl],
      simp, simp add: gapTotal_three gap_of_days unrealisticCount_def spikePhase_three fmul_def
        Math_round_def)

lemma honesty_examples_minutes:
  "calculateDigitalHonestyScore (Some [dayEntry 0 960, dayEntry 0 960]) = 100"
  "calculateDigitalHonestyScore (Some [dayEntry 0 960, dayEntry 0 (fl 960.01)]) = 90"
  "calculateDigitalHonestyScore
         (Some [dayEntry 0 1000, dayEntry 0 1000, dayEntry 0 1000, dayEntry 0 1000,
                dayEntry 0 1000]) = 50"
proof -
  show "calculateDigitalHonestyScore (Some [dayEntry 0 960, dayEntry 0 960]) = 100"
    by (rule honesty_from_parts [OF _ sorted_days(4) refl refl refl], simp,
        simp add: gapTotal_two gap_of_days unrealisticCount_def spikePhase_two fmul_def
          Math_round_def)
next
  have r: "960 < fl (96001 / 100)" "fl (96001 / 100) < 4800"
    by code_simp+
  then have n: "\<not> 4800 < fl (96001 / 100)"
    by simp
  show "calculateDigitalHonestyScore (Some [dayEntry 0 960, dayEntry 0 (fl 960.01)]) = 90"
    by (rule honesty_from_parts [OF _ sorted_days(4) refl refl refl], simp,
        simp add: gapTotal_two gap_of_days unrealisticCount_def spikePhase_two fmul_def
          Math_round_def r(1) n)
next
  let ?es = "[dayEntry 0 1000, dayEntry 0 1000, dayEntry 0 1000, dayEntry 0 1000,
                dayEntry 0 1000]"
  have g: "gapTotal ?es = 0"
    by code_simp
  show "calculateDigitalHonestyScore (Some ?es) = 50"
    by (rule honesty_from_parts [OF _ sorted_days(7) g refl refl], simp,
        simp add: unrealisticCount_def spikePhase_five fmul_def fadd_def fdiv_def
          Math_round_def)
qed

lemma honesty_examples_spike:
  "calculateDigitalHonestyScore
        (Some [dayEntry 0 0, dayEntry 1 0, dayEntry 2 0, dayEntry 3 500]) = 100"
  "calculateDigitalHonestyScore (Some [dayEntry 0 0, dayEntry 1 500]) = 100"
proof -
  let ?es = "[dayEntry 0 0, dayEntry 1 0, dayEntry 2 0, dayEntry 3 500]"
  have g: "gapTotal ?es = 0"
    by code_simp
  show "calculateDigitalHonestyScore (Some ?es) = 100"
    by (rule honesty_from_parts [OF _ sorted_days(6) g refl refl], simp,
        simp add: unrealisticCount_def spikePhase_four fmul_def fadd_def fdiv_def
          fl_zero Math_round_def)
next
  show "calculateDigitalHonestyScore (Some [dayEntry 0 0, dayEntry 1 500]) = 100"
    by (rule honesty_from_parts [OF _ sorted_days(5) refl refl refl], simp,
        simp add: gapTotal_two gap_of_days unrealisticCount_def spikePhase_two fmul_def
          Math_round_def)
qed

text \<open>
  The spike comparisons are made on doubles. The product \<open>1.13 * 5\<close> is computed as
  \<open>5.6499999999999995\<close>, which 5.65 exceeds; the mean of three entries of 1.2 minutes times
  3 is computed as \<open>3.5999999999999996\<close>, which 3.6 exceeds. Both lists lose 5.
\<close>

lemma honesty_rounding_examples:
  "calculateDigitalHonestyScore (Some [dayEntry 0 (fl 1.13), dayEntry 1 (fl 5.65)]) = 95"
  "calculateDigitalHonestyScore
     (Some [dayEntry 0 (fl 1.2), dayEntry 1 (fl 1.2), dayEntry 2 (fl 1.2), dayEntry 3 (fl 3.6)])
   = 95"
  by code_simp+

text \<open>
  C4. The loop over consecutive dates subtracts, for every pair with a day gap \<open>g > 7\<close>,
  \<open>min 30 ((g - 7) * 5)\<close>, summed over all pairs without a cap. With at least two entries,
  the honesty score is the clamped, rounded result of the spike phase started with 100 minus
  this sum over the entries sorted by date and minus 10 for each unrealistic entry.
  Entries on days 0, 10 and 11 with 100 minutes each score 85, also when given out of
  order; with two gaps of 13 days each gap loses 30, and the score is 40.
\<close>

theorem gap_penalty_per_gap:
  "gapLoop s i sc =
      sc - real_of_int (\<Sum>j\<leftarrow>[i..<length s].
             let g = daysDiff (date (s ! (j - 1))) (date (s ! j))
             in if g > 7 then min 30 ((g - 7) * 5) else 0)
   \<and> (2 \<le> length es \<longrightarrow>
      calculateDigitalHonestyScore (Some es) =
        max 0 (min 100 (Math_round
          (spikePhase (sort_key date es)
            (100
             - real_of_int (\<Sum>i\<leftarrow>[1..<length es].
                   let g = daysDiff (date (sort_key date es ! (i - 1)))
                                    (date (sort_key date es ! i))
                   in if g > 7 then min 30 ((g - 7) * 5) else 0)
             - 10 * real (unrealisticCount es))))))
   \<and> calculateDigitalHonestyScore (Some [dayEntry 0 100, dayEntry 10 100, dayEntry 11 100]) = 85
   \<and> calculateDigitalHonestyScore (Some [dayEntry 11 100, dayEntry 0 100, dayEntry 10 100]) = 85
   \<and> calculateDigitalHonestyScore (Some [dayEntry 0 100, dayEntry 13 100, dayEntry 26 100]) = 40"
proof (intro conjI impI)
  show "gapLoop s i sc =
      sc - real_of_int (\<Sum>j\<leftarrow>[i..<length s].
             let g = daysDiff (date (s ! (j - 1))) (date (s ! j))
             in if g > 7 then min 30 ((g - 7) * 5) else 0)"
    by (rule gapLoop_closed)
next
  assume len: "2 \<le> length es"
  show "calculateDigitalHonestyScore (Some es) =
        max 0 (min 100 (Math_round
          (spikePhase (sort_key date es)
            (100
             - real_of_int (\<Sum>i\<leftarrow>[1..<length es].
                   let g = daysDiff (date (sort_key date es ! (i - 1)))
                                    (date (sort_key date es ! i))
                   in if g > 7 then min 30 ((g - 7) * 5) else 0)
             - 10 * real (unrealisticCount es)))))"
    using honesty_closed [OF len] by (simp add: gapTotal_def)
next
  show "calculateDigitalHonestyScore (Some [dayEntry 0 100, dayEntry 10 100, dayEntry 11 100]) = 85"
    by (rule honesty_examples(1))
next
  show "calculateDigitalHonestyScore (Some [dayEntry 11 100, dayEntry 0 100, dayEntry 10 100]) = 85"
    by (rule honesty_examples(2))
next
  show "calculateDigitalHonestyScore (Some [dayEntry 0 100, dayEntry 13 100, dayEntry 26 100]) = 40"
    by (rule honesty_examples(3))
qed

theorem gap_penalty_per_gap_witness:
  "(2 :: nat) \<le> length [dayEntry 0 100, dayEntry 13 100, dayEntry 26 100]
   \<and> calculateDigitalHonestyScore (Some [dayEntry 0 100, dayEntry 13 100, dayEntry 26 100])
     = max 0 (min 100 (Math_round
         (spikePhase [dayEntry 0 100, dayEntry 13 100, dayEntry 26 100]
            (100 - real_of_int (30 + 30) - 10 * real (0 :: nat)))))
   \<and> spikePhase [dayEntry 0 100, dayEntry 13 100, dayEntry 26 100] 40 = 40"
proof -
  let ?es = "[dayEntry 0 100, dayEntry 13 100, dayEntry 26 100]"
  have len: "2 \<le> length ?es"
    by simp
  have spikes: "spikePhase ?es 40 = 40"
    by (simp add: spikePhase_three fmul_def)
  from gap_penalty_per_gap [where es = ?es, THEN conjunct2, THEN conjunct1, THEN mp, OF len]
  show ?thesis
    unfolding sorted_days(3) using len spikes
    by (simp add: gap_of_days unrealisticCount_def upt_rec_numeral)
qed

text \<open>
  C8. The loop over the entries subtracts 10 for each entry of more than 960 minutes, without
  a cap. With at least two entries, the honesty score is the clamped, rounded result of the
  spike phase started with 100 minus the gap penalties and minus 10 for each such entry. One
  step of the loop leaves the score as it is on an entry of exactly 960 minutes and subtracts
  10 on any entry above 960. Two entries of 960 minutes score 100; 960 and 960.01 minutes
  (the double nearest to 960.01) score 90; five entries of 1000 minutes score 50.
\<close>

theorem unrealistic_penalty_per_entry:
  "unrealisticLoop s sc = sc - 10 * real (length (filter (\<lambda>e. minutesSpent e > 960) s))
   \<and> (2 \<le> length es \<longrightarrow>
      calculateDigitalHonestyScore (Some es) =
        max 0 (min 100 (Math_round
          (spikePhase (sort_key date es)
            (100 - real_of_int (gapTotal (sort_key date es))
             - 10 * real (length (filter (\<lambda>e. minutesSpent e > 960) es)))))))
   \<and> (minutesSpent e = 960 \<longrightarrow> unrealisticLoop (e # rest) sc = unrealisticLoop rest sc)
   \<and> (minutesSpent e > 960 \<longrightarrow> unrealisticLoop (e # rest) sc = unrealisticLoop rest (sc - 10))
   \<and> calculateDigitalHonestyScore (Some [dayEntry 0 960, dayEntry 0 960]) = 100
   \<and> calculateDigitalHonestyScore (Some [dayEntry 0 960, dayEntry 0 (fl 960.01)]) = 90
   \<and> calculateDigitalHonestyScore
         (Some [dayEntry 0 1000, dayEntry 0 1000, dayEntry 0 1000, dayEntry 0 1000,
                dayEntry 0 1000]) = 50"
proof (intro conjI impI)
  show "unrealisticLoop s sc = sc - 10 * real (length (filter (\<lambda>e. minutesSpent e > 960) s))"
    by (rule unrealisticLoop_closed)
next
  assume len: "2 \<le> length es"
  show "calculateDigitalHonestyScore (Some es) =
        max 0 (min 100 (Math_round
          (spikePhase (sort_key date es)
            (100 - real_of_int (gapTotal (sort_key date es))
             - 10 * real (length (filter (\<lambda>e. minutesSpent e > 960) es))))))"
    using honesty_closed [OF len] by (simp add: unrealisticCount_def)
next
  assume "minutesSpent e = 960"
  then show "unrealisticLoop (e # rest) sc = unrealisticLoop rest sc"
    by (subst unrealisticLoop_step) simp
next
  assume "minutesSpent e > 960"
  then show "unrealisticLoop (e # rest) sc = unrealisticLoop rest (sc - 10)"
    by (subst unrealisticLoop_step) simp
next
  show "calculateDigitalHonestyScore (Some [dayEntry 0 960, dayEntry 0 960]) = 100"
    by (rule honesty_examples_minutes(1))
next
  show "calculateDigitalHonestyScore (Some [dayEntry 0 960, dayEntry 0 (fl 960.01)]) = 90"
    by (rule honesty_examples_minutes(2))
next
  show "calculateDigitalHonestyScore
         (Some [dayEntry 0 1000, dayEntry 0 1000, dayEntry 0 1000, dayEntry 0 1000,
                dayEntry 0 1000]) = 50"
    by (rule honesty_examples_minutes(3))
qed

theorem unrealistic_penalty_per_entry_witness:
  "(2 :: nat) \<le> length [dayEntry 0 960, dayEntry 0 961]
   \<and> minutesSpent (dayEntry 0 960) = 960
   \<and> minutesSpent (dayEntry 0 961) > 960
   \<and> unrealisticLoop [dayEntry 0 960] 100 = 100
   \<and> unrealisticLoop [dayEntry 0 961] 100 = 90
   \<and> calculateDigitalHonestyScore (Some [dayEntry 0 960, dayEntry 0 961]) = 90"
proof -
  let ?es = "[dayEntry 0 960, dayEntry 0 961]"
  have len: "2 \<le> length ?es"
    by simp
  have a: "minutesSpent (dayEntry 0 960) = 960" and b: "minutesSpent (dayEntry 0 961) > 960"
    by simp_all
  have gaps: "gapTotal (sort_key date ?es) = 0"
    unfolding sorted_days(4) by (simp add: gapTotal_two gap_of_days)
  have cnt: "length (filter (\<lambda>e. minutesSpent e > 960) ?es) = 1"
    by simp
  have spikes: "spikePhase (sort_key date ?es) (100 - real_of_int 0 - 10 * real (1 :: nat)) = 90"
    unfolding sorted_days(4) by (simp add: spikePhase_two fmul_def)
  note t = unrealistic_penalty_per_entry [where es = ?es and e = "dayEntry 0 960"
      and rest = "[]" and sc = 100]
  note u = unrealistic_penalty_per_entry [where es = ?es and e = "dayEntry 0 961"
      and rest = "[]" and sc = 100]
  have "calculateDigitalHonestyScore (Some ?es) = 90"
    using t [THEN conjunct2, THEN conjunct1, THEN mp, OF len]
    unfolding gaps cnt spikes by (simp add: Math_round_def)
  moreover have "unrealisticLoop [dayEntry 0 960] 100 = 100"
    using t [THEN conjunct2, THEN conjunct2, THEN conjunct1, THEN mp, OF a] by simp
  moreover have "unrealisticLoop [dayEntry 0 961] 100 = 90"
    using u [THEN conjunct2, THEN conjunct2, THEN conjunct2, THEN conjunct1, THEN mp, OF b]
    by simp
  ultimately show ?thesis
    using len a b by simp
qed

text \<open>
  C10. An iteration of a spike loop subtracts 5 only when its baseline (the mean of the three
  preceding entries, or the predecessor) is strictly positive: each iteration either leaves
  the score as it is, or the baseline is positive and 5 is subtracted. Three preceding
  entries of at most 0 minutes give a mean of at most 0. When every baseline is at most 0 the
  loops leave the score unchanged; when all entries but the last in date order have 0
  minutes, the score has no spike penalty whatever the last entry's minutes are: 0, 0, 0 and
  500 minutes score 100, and so do 0 and 500 minutes.
\<close>

theorem spike_needs_positive_baseline:
  "(3 \<le> i \<and> i < length s \<longrightarrow>
      spikeLoopRecent s i sc = spikeLoopRecent s (Suc i) sc
      \<or> (recentMean s i > 0 \<and> spikeLoopRecent s i sc = spikeLoopRecent s (Suc i) (sc - 5)))
   \<and> (1 \<le> i \<and> i < length s \<longrightarrow>
      spikeLoopPrev s i sc = spikeLoopPrev s (Suc i) sc
      \<or> (minutesSpent (s ! (i - 1)) > 0
          \<and> spikeLoopPrev s i sc = spikeLoopPrev s (Suc i) (sc - 5)))
   \<and> (minutesSpent (s ! (i - 3)) \<le> 0 \<and> minutesSpent (s ! (i - 2)) \<le> 0
        \<and> minutesSpent (s ! (i - 1)) \<le> 0 \<longrightarrow> recentMean s i \<le> 0)
   \<and> ((\<forall>i. 3 \<le> i \<and> i < length s \<longrightarrow> recentMean s i \<le> 0) \<longrightarrow> spikeLoopRecent s 3 sc = sc)
   \<and> ((\<forall>i. 1 \<le> i \<and> i < length s \<longrightarrow> minutesSpent (s ! (i - 1)) \<le> 0)
        \<longrightarrow> spikeLoopPrev s 1 sc = sc)
   \<and> (2 \<le> length es \<and> (\<forall>i. i + 1 < length es \<longrightarrow> minutesSpent (sort_key date es ! i) = 0) \<longrightarrow>
        calculateDigitalHonestyScore (Some es) =
          max 0 (min 100 (Math_round
            (100 - real_of_int (gapTotal (sort_key date es)) - 10 * real (unrealisticCount es)))))
   \<and> calculateDigitalHonestyScore
        (Some [dayEntry 0 0, dayEntry 1 0, dayEntry 2 0, dayEntry 3 500]) = 100
   \<and> calculateDigitalHonestyScore (Some [dayEntry 0 0, dayEntry 1 500]) = 100"
proof (intro conjI impI)
  assume a: "3 \<le> i \<and> i < length s"
  then have i: "3 \<le> i" "i < length s"
    by simp_all
  show "spikeLoopRecent s i sc = spikeLoopRecent s (Suc i) sc
      \<or> (recentMean s i > 0 \<and> spikeLoopRecent s i sc = spikeLoopRecent s (Suc i) (sc - 5))"
    unfolding spikeLoopRecent_step [OF i] by simp
next
  assume a: "1 \<le> i \<and> i < length s"
  then have i: "i < length s"
    by simp
  show "spikeLoopPrev s i sc = spikeLoopPrev s (Suc i) sc
      \<or> (minutesSpent (s ! (i - 1)) > 0
          \<and> spikeLoopPrev s i sc = spikeLoopPrev s (Suc i) (sc - 5))"
    unfolding spikeLoopPrev_step [OF i] by simp
next
  assume "minutesSpent (s ! (i - 3)) \<le> 0 \<and> minutesSpent (s ! (i - 2)) \<le> 0
        \<and> minutesSpent (s ! (i - 1)) \<le> 0"
  then show "recentMean s i \<le> 0"
    by (intro recentMean_nonpos) simp_all
next
  assume "\<forall>i. 3 \<le> i \<and> i < length s \<longrightarrow> recentMean s i \<le> 0"
  then show "spikeLoopRecent s 3 sc = sc"
    by (rule spikeLoopRecent_no_baseline)
next
  assume "\<forall>i. 1 \<le> i \<and> i < length s \<longrightarrow> minutesSpent (s ! (i - 1)) \<le> 0"
  then show "spikeLoopPrev s 1 sc = sc"
    by (rule spikeLoopPrev_no_baseline)
next
  assume a: "2 \<le> length es \<and> (\<forall>i. i + 1 < length es \<longrightarrow> minutesSpent (sort_key date es ! i) = 0)"
  then have len: "2 \<le> length es"
    and zero: "\<forall>i. i + 1 < length (sort_key date es) \<longrightarrow> minutesSpent (sort_key date es ! i) = 0"
    by simp_all
  show "calculateDigitalHonestyScore (Some es) =
          max 0 (min 100 (Math_round
            (100 - real_of_int (gapTotal (sort_key date es)) - 10 * real (unrealisticCount es))))"
    unfolding honesty_closed [OF len] spikePhase_zero_baseline [OF zero] by (rule refl)
next
  show "calculateDigitalHonestyScore
        (Some [dayEntry 0 0, dayEntry 1 0, dayEntry 2 0, dayEntry 3 500]) = 100"
    by (rule honesty_examples_spike(1))
next
  show "calculateDigitalHonestyScore (Some [dayEntry 0 0, dayEntry 1 500]) = 100"
    by (rule honesty_examples_spike(2))
qed

theorem spike_needs_positive_baseline_witness:
  "(3 :: nat) \<le> 3 \<and> 3 < length [dayEntry 0 0, dayEntry 1 0, dayEntry 2 0, dayEntry 3 500]
   \<and> minutesSpent ([dayEntry 0 0, dayEntry 1 0, dayEntry 2 0, dayEntry 3 500] ! 0) \<le> 0
   \<and> recentMean [dayEntry 0 0, dayEntry 1 0, dayEntry 2 0, dayEntry 3 500] 3 \<le> 0
   \<and> spikeLoopRecent [dayEntry 0 0, dayEntry 1 0, dayEntry 2 0, dayEntry 3 500] 3 100
       = spikeLoopRecent [dayEntry 0 0, dayEntry 1 0, dayEntry 2 0, dayEntry 3 500] (Suc 3) 100
   \<and> spikeLoopRecent [dayEntry 0 0, dayEntry 1 0, dayEntry 2 0, dayEntry 3 500] 3 100 = 100
   \<and> (1 :: nat) \<le> 1 \<and> 1 < length [dayEntry 0 0, dayEntry 1 500]
   \<and> spikeLoopPrev [dayEntry 0 0, dayEntry 1 500] 1 100
       = spikeLoopPrev [dayEntry 0 0, dayEntry 1 500] (Suc 1) 100
   \<and> spikeLoopPrev [dayEntry 0 0, dayEntry 1 500] 1 100 = 100
   \<and> (2 :: nat) \<le> length [dayEntry 0 0, dayEntry 1 500]
   \<and> calculateDigitalHonestyScore (Some [dayEntry 0 0, dayEntry 1 500]) = 100"
proof -
  let ?four = "[dayEntry 0 0, dayEntry 1 0, dayEntry 2 0, dayEntry 3 500]"
  let ?two = "[dayEntry 0 0, dayEntry 1 500]"
  note t4 = spike_needs_positive_baseline [where s = ?four and i = 3 and sc = 100 and es = ?two]
  note t2 = spike_needs_positive_baseline [where s = ?two and i = 1 and sc = 100 and es = ?two]
  have i4: "3 \<le> (3 :: nat) \<and> 3 < length ?four"
    by simp
  have z4: "minutesSpent (?four ! (3 - 3)) \<le> 0 \<and> minutesSpent (?four ! (3 - 2)) \<le> 0
        \<and> minutesSpent (?four ! (3 - 1)) \<le> 0"
    by simp
  have m4: "recentMean ?four 3 \<le> 0"
    by (rule t4 [THEN conjunct2, THEN conjunct2, THEN conjunct1, THEN mp, OF z4])
  have s4: "spikeLoopRecent ?four 3 100 = spikeLoopRecent ?four (Suc 3) 100"
    using t4 [THEN conjunct1, THEN mp, OF i4] m4 by linarith
  have base4: "\<forall>i. 3 \<le> i \<and> i < length ?four \<longrightarrow> recentMean ?four i \<le> 0"
  proof (intro allI impI)
    fix i :: nat
    assume "3 \<le> i \<and> i < length ?four"
    then have "i = 3"
      by simp
    then show "recentMean ?four i \<le> 0"
      using m4 by simp
  qed
  have r4: "spikeLoopRecent ?four 3 100 = 100"
    by (rule t4 [THEN conjunct2, THEN conjunct2, THEN conjunct2, THEN conjunct1, THEN mp,
          OF base4])
  have i2: "1 \<le> (1 :: nat) \<and> 1 < length ?two"
    by simp
  have p2: "\<not> minutesSpent (?two ! (1 - 1)) > 0"
    by simp
  have s2: "spikeLoopPrev ?two 1 100 = spikeLoopPrev ?two (Suc 1) 100"
    using t2 [THEN conjunct2, THEN conjunct1, THEN mp, OF i2] p2 by blast
  have base2: "\<forall>i. 1 \<le> i \<and> i < length ?two \<longrightarrow> minutesSpent (?two ! (i - 1)) \<le> 0"
  proof (intro allI impI)
    fix i :: nat
    assume "1 \<le> i \<and> i < length ?two"
    then have "i = 1"
      by simp
    then show "minutesSpent (?two ! (i - 1)) \<le> 0"
      by simp
  qed
  have r2: "spikeLoopPrev ?two 1 100 = 100"
    by (rule t2 [THEN conjunct2, THEN conjunct2, THEN conjunct2, THEN conjunct2,
          THEN conjunct1, THEN mp, OF base2])
  have h: "2 \<le> length ?two
      \<and> (\<forall>i. i + 1 < length ?two \<longrightarrow> minutesSpent (sort_key date ?two ! i) = 0)"
    unfolding sorted_days(5) by simp
  have g2: "gapTotal (sort_key date ?two) = 0" "unrealisticCount ?two = 0"
    unfolding sorted_days(5) by (simp_all add: gapTotal_two gap_of_days unrealisticCount_def)
  have c2: "calculateDigitalHonestyScore (Some ?two) = 100"
    using t2 [THEN conjunct2, THEN conjunct2, THEN conjunct2, THEN conjunct2,
          THEN conjunct2, THEN conjunct1, THEN mp, OF h]
    unfolding g2 by (simp add: Math_round_def)
  have z0: "minutesSpent (?four ! 0) \<le> 0"
    by simp
  show ?thesis
    using i4 z0 m4 s4 r4 i2 s2 r2 c2 by simp
qed


section \<open>Mirror insights per intention group\<close>

lemma analyzeGroup_append:
  "analyzeGroup env k g ins = ins @ analyzeGroup env k g []"
  unfolding analyzeGroup_def Let_def
  by (simp only: append_Nil append_Nil2 if_distrib [of "(@) ins"])

lemma analyzeGroup_at_most_one: "length (analyzeGroup env k g []) \<le> 1"
  by (simp add: analyzeGroup_def Let_def)

lemma analyzeGroup_not_found:
  assumes "foundRate g < 0.5" "3 \<le> length g"
  shows "\<exists>i. analyzeGroup env k g [] = [i] \<and> pattern i = ''not_found'' \<and> count i = length g
           \<and> foundItRate i = foundRate g \<and> intentionText i = capitalizeFirst env k"
  using assms by (simp add: analyzeGroup_def Let_def foundRate_def)

lemma fold_analyzeGroup:
  "fold (\<lambda>(intent, groupEntries) ins. analyzeGroup env intent groupEntries ins) groups ins =
     ins @ concat (map (\<lambda>(k, g). analyzeGroup env k g []) groups)"
proof (induction groups arbitrary: ins)
  case Nil
  then show ?case by simp
next
  case (Cons p groups)
  obtain k g where p: "p = (k, g)"
    by (cases p)
  show ?case
    unfolding p
    by (simp add: Cons.IH) (subst analyzeGroup_append, simp)
qed

lemma analyzeMirrorPatterns_groups:
  "analyzeMirrorPatterns env (Some es) =
     sort_key (\<lambda>i. - int (count i))
       (concat (map (\<lambda>(k, g). analyzeGroup env k g [])
                  (groupByIntention env [] (filter hasIntention es))))"
proof (cases "filter hasIntention es = []")
  case True
  then show ?thesis
    by (simp add: analyzeMirrorPatterns_def)
next
  case False
  then have "es \<noteq> []"
    by auto
  with False show ?thesis
    by (simp add: analyzeMirrorPatterns_def Let_def fold_analyzeGroup)
qed

text \<open>
  The percentage in a message is \<open>Math.round\<close> of the double product: with 23 of 40 found,
  \<open>23 / 40 * 100\<close> is computed as \<open>57.49999999999999\<close> and printed as 57.
\<close>

lemma found_rate_message: "showRounded (fmul (fdiv 23 40) 100) = ''57''"
  by code_simp

lemma relax_strings:
  "toLowerCase env ''relax'' = ''relax''" "capitalizeFirst env ''relax'' = ''Relax''"
proof -
  have r: "char_of (82 :: nat) = CHR ''R''"
    by code_simp
  show "toLowerCase env ''relax'' = ''relax''"
    by (simp add: toLowerCase_def isAscii_def toLowerCaseChar_def)
  show "capitalizeFirst env ''relax'' = ''Relax''"
    by (simp add: capitalizeFirst_def isAscii_def toUpperCaseChar_def r)
qed

lemma three_relax:
  assumes "intention e1 = Some ''relax''" "intention e2 = Some ''relax''"
    "intention e3 = Some ''relax''"
    "foundIt e1 = Some False" "foundIt e2 = Some False" "foundIt e3 = Some False"
  shows "\<exists>i. analyzeMirrorPatterns env (Some [e1, e2, e3]) = [i] \<and> pattern i = ''not_found''
            \<and> count i = 3 \<and> foundItRate i = 0 \<and> intentionText i = ''Relax''"
proof -
  have keep: "filter hasIntention [e1, e2, e3] = [e1, e2, e3]"
    using assms by (simp add: hasIntention_def)
  have grp: "groupByIntention env [] [e1, e2, e3] = [(''relax'', [e1, e2, e3])]"
    using assms by (simp add: pushInto_def relax_strings)
  have rate: "foundRate [e1, e2, e3] = 0"
    using assms by (simp add: foundRate_def fdiv_def fl_zero)
  obtain i where i: "analyzeGroup env ''relax'' [e1, e2, e3] [] = [i]"
    "pattern i = ''not_found''" "count i = length [e1, e2, e3]"
    "foundItRate i = foundRate [e1, e2, e3]" "intentionText i = capitalizeFirst env ''relax''"
    using analyzeGroup_not_found [of "[e1, e2, e3]" env "''relax''"] rate by auto
  have "analyzeMirrorPatterns env (Some [e1, e2, e3]) =
          sort_key (\<lambda>i. - int (count i))
            (concat (map (\<lambda>(k, g). analyzeGroup env k g [])
               (groupByIntention env [] (filter hasIntention [e1, e2, e3]))))"
    by (rule analyzeMirrorPatterns_groups)
  also have "\<dots> = sort_key (\<lambda>i. - int (count i)) (analyzeGroup env ''relax'' [e1, e2, e3] [])"
    unfolding keep grp by simp
  also have "\<dots> = [i]"
    unfolding i(1) by simp
  finally have "analyzeMirrorPatterns env (Some [e1, e2, e3]) = [i]" .
  with i rate show ?thesis
    by (simp add: relax_strings)
qed

text \<open>
  C7. The body of the loop over the intention groups appends at most one insight. For a
  group with a found rate below 0.5 and at least 3 entries it appends exactly one, with
  pattern \<open>not_found\<close>, the group's size as count and the group's found rate. The result of
  \<open>analyzeMirrorPatterns\<close> is the sorted concatenation of these per-group results. Three
  entries with intention \<open>relax\<close> and \<open>foundIt = false\<close> yield exactly one insight, with
  pattern \<open>not_found\<close>, count 3 and found rate 0.
\<close>

theorem mirror_first_match:
  "length (analyzeGroup env k g []) \<le> 1
   \<and> analyzeGroup env k g ins = ins @ analyzeGroup env k g []
   \<and> (foundRate g < 0.5 \<and> 3 \<le> length g \<longrightarrow>
        (\<exists>i. analyzeGroup env k g ins = ins @ [i] \<and> pattern i = ''not_found''
             \<and> count i = length g \<and> foundItRate i = foundRate g
             \<and> intentionText i = capitalizeFirst env k))
   \<and> analyzeMirrorPatterns env (Some es) =
        sort_key (\<lambda>i. - int (count i))
          (concat (map (\<lambda>(k, g). analyzeGroup env k g [])
                     (groupByIntention env [] (filter hasIntention es))))
   \<and> (intention e1 = Some ''relax'' \<and> intention e2 = Some ''relax''
        \<and> intention e3 = Some ''relax'' \<and> foundIt e1 = Some False
        \<and> foundIt e2 = Some False \<and> foundIt e3 = Some False \<longrightarrow>
        (\<exists>i. analyzeMirrorPatterns env (Some [e1, e2, e3]) = [i] \<and> pattern i = ''not_found''
             \<and> count i = 3 \<and> foundItRate i = 0 \<and> intentionText i = ''Relax''))"
proof (intro conjI impI)
  show "length (analyzeGroup env k g []) \<le> 1"
    by (rule analyzeGroup_at_most_one)
next
  show "analyzeGroup env k g ins = ins @ analyzeGroup env k g []"
    by (rule analyzeGroup_append)
next
  assume "foundRate g < 0.5 \<and> 3 \<le> length g"
  then obtain i where "analyzeGroup env k g [] = [i]" "pattern i = ''not_found''"
    "count i = length g" "foundItRate i = foundRate g" "intentionText i = capitalizeFirst env k"
    using analyzeGroup_not_found [of g env k] by blast
  then show "\<exists>i. analyzeGroup env k g ins = ins @ [i] \<and> pattern i = ''not_found''
             \<and> count i = length g \<and> foundItRate i = foundRate g
             \<and> intentionText i = capitalizeFirst env k"
    using analyzeGroup_append [of env k g ins] by simp
next
  show "analyzeMirrorPatterns env (Some es) =
        sort_key (\<lambda>i. - int (count i))
          (concat (map (\<lambda>(k, g). analyzeGroup env k g [])
                     (groupByIntention env [] (filter hasIntention es))))"
    by (rule analyzeMirrorPatterns_groups)
next
  assume "intention e1 = Some ''relax'' \<and> intention e2 = Some ''relax''
        \<and> intention e3 = Some ''relax'' \<and> foundIt e1 = Some False
        \<and> foundIt e2 = Some False \<and> foundIt e3 = Some False"
  then show "\<exists>i. analyzeMirrorPatterns env (Some [e1, e2, e3]) = [i] \<and> pattern i = ''not_found''
             \<and> count i = 3 \<and> foundItRate i = 0 \<and> intentionText i = ''Relax''"
    using three_relax [of e1 e2 e3 env] by blast
qed

theorem mirror_first_match_witness:
  "foundRate [relaxEntry 0, relaxEntry 1, relaxEntry 2] < 0.5
   \<and> (3 :: nat) \<le> length [relaxEntry 0, relaxEntry 1, relaxEntry 2]
   \<and> map pattern (analyzeGroup noonEnv ''relax'' [relaxEntry 0, relaxEntry 1, relaxEntry 2] [])
       = [''not_found'']
   \<and> map pattern (analyzeMirrorPatterns noonEnv (Some [relaxEntry 0, relaxEntry 1, relaxEntry 2]))
       = [''not_found'']
   \<and> map count (analyzeMirrorPatterns noonEnv (Some [relaxEntry 0, relaxEntry 1, relaxEntry 2]))
       = [3]
   \<and> map foundItRate
         (analyzeMirrorPatterns noonEnv (Some [relaxEntry 0, relaxEntry 1, relaxEntry 2]))
       = [0]"
proof -
  let ?g = "[relaxEntry 0, relaxEntry 1, relaxEntry 2]"
  have rate: "foundRate ?g < 0.5"
    by (simp add: foundRate_def relaxEntry_def fdiv_def fl_zero)
  have len: "3 \<le> length ?g"
    by simp
  have hyp: "intention (relaxEntry 0) = Some ''relax'' \<and> intention (relaxEntry 1) = Some ''relax''
        \<and> intention (relaxEntry 2) = Some ''relax'' \<and> foundIt (relaxEntry 0) = Some False
        \<and> foundIt (relaxEntry 1) = Some False \<and> foundIt (relaxEntry 2) = Some False"
    by (simp add: relaxEntry_def)
  note t = mirror_first_match [of noonEnv "''relax''" ?g "[]" ?g
      "relaxEntry 0" "relaxEntry 1" "relaxEntry 2"]
  from t [THEN conjunct2, THEN conjunct2, THEN conjunct1, THEN mp, OF conjI [OF rate len]]
  have one: "map pattern (analyzeGroup noonEnv ''relax'' ?g []) = [''not_found'']"
    by auto
  from t [THEN conjunct2, THEN conjunct2, THEN conjunct2, THEN conjunct2, THEN mp, OF hyp]
  obtain i where "analyzeMirrorPatterns noonEnv (Some ?g) = [i]" "pattern i = ''not_found''"
    "count i = 3" "foundItRate i = 0"
    by blast
  then show ?thesis
    using rate len one by simp
qed

end
